theory Spec2Isabelle
  imports Main "HOL-Library.Word"
begin

unbundle bit_operations_syntax

section \<open>Constants of be/src/olap/hll.h\<close>

definition HLL_COLUMN_PRECISION :: nat where
  "HLL_COLUMN_PRECISION = 14"

definition HLL_ZERO_COUNT_BITS :: nat where
  "HLL_ZERO_COUNT_BITS = 64 - HLL_COLUMN_PRECISION"

definition HLL_EXPLICIT_INT64_NUM :: nat where
  "HLL_EXPLICIT_INT64_NUM = 160"

definition HLL_EXPLICIT_INT64_NUM_DOUBLE :: nat where
  "HLL_EXPLICIT_INT64_NUM_DOUBLE = HLL_EXPLICIT_INT64_NUM * 2"

definition HLL_REGISTERS_COUNT :: nat where
  "HLL_REGISTERS_COUNT = 16 * 1024"

section \<open>The register engine\<close>

text \<open>
  The compiler intrinsic \<^verbatim>\<open>__builtin_ctzl\<close> on a 64-bit \<^verbatim>\<open>unsigned long\<close>: the number of
  zero bits below the least significant one bit. Its result is undefined for the argument
  0, which the model reports as \<open>None\<close>. The scan inspects at most 64 bit positions.
\<close>

fun ctz_scan :: "nat \<Rightarrow> 64 word \<Rightarrow> nat" where
  "ctz_scan 0 w = 0"
| "ctz_scan (Suc n) w = (if bit w 0 then 0 else Suc (ctz_scan n (drop_bit 1 w)))"

definition builtin_ctzl :: "64 word \<Rightarrow> nat option" where
  "builtin_ctzl w = (if w = 0 then None else Some (ctz_scan 64 w))"

text \<open>
  \<^verbatim>\<open>HyperLogLog::_update_registers\<close>, on the contents of the array \<^verbatim>\<open>_registers\<close> points to.
  \<^verbatim>\<open>idx\<close> is the unsigned remainder converted to \<^verbatim>\<open>int\<close>; \<^verbatim>\<open>first_one_bit\<close> is the
  count plus one converted to \<^verbatim>\<open>uint8_t\<close>. An index outside the array is a memory fault
  (\<open>None\<close>).
\<close>

definition update_registers :: "64 word \<Rightarrow> 8 word list \<Rightarrow> 8 word list option" where
  "update_registers hash_value regs =
     (let idx = unat (hash_value mod word_of_nat HLL_REGISTERS_COUNT);
          shifted = drop_bit HLL_COLUMN_PRECISION hash_value;
          forced = shifted OR push_bit HLL_ZERO_COUNT_BITS 1
      in case builtin_ctzl forced of
           None \<Rightarrow> None
         | Some z \<Rightarrow>
             let first_one_bit = (word_of_nat (z + 1) :: 8 word)
             in if idx < length regs
                then Some (regs[idx := (if regs ! idx > first_one_bit
                                        then regs ! idx else first_one_bit)])
                else None)"

text \<open>
  \<^verbatim>\<open>HyperLogLog::_merge_registers\<close>: the \<^verbatim>\<open>for\<close> loop over \<^verbatim>\<open>i\<close> from 0 to
  \<^verbatim>\<open>HLL_REGISTERS_COUNT\<close>, state being the loop counter and the contents of \<^verbatim>\<open>_registers\<close>.
  Reading or writing past the end of either array is a memory fault.
\<close>

function merge_registers_loop :: "nat \<Rightarrow> 8 word list \<Rightarrow> 8 word list \<Rightarrow> 8 word list option" where
  "merge_registers_loop i regs other =
     (if i < HLL_REGISTERS_COUNT
      then (if i < length regs \<and> i < length other
            then merge_registers_loop (i + 1)
                   (regs[i := (if regs ! i < other ! i then other ! i else regs ! i)]) other
            else None)
      else Some regs)"
  by pat_completeness auto
termination
  by (relation "measure (\<lambda>(i, regs, other). HLL_REGISTERS_COUNT - i)") auto

declare merge_registers_loop.simps [simp del]

definition merge_registers :: "8 word list \<Rightarrow> 8 word list \<Rightarrow> 8 word list option" where
  "merge_registers regs other = merge_registers_loop 0 regs other"

section \<open>The explicit set\<close>

text \<open>
  The \<^verbatim>\<open>while (i >= 0)\<close> loop of \<^verbatim>\<open>HyperLogLog::_explicit_data_insert\<close>. It leaves either
  through \<^verbatim>\<open>return false\<close> (\<open>Found\<close>) or with the final value of \<^verbatim>\<open>i\<close>, by \<^verbatim>\<open>break\<close> or by
  the loop condition (\<open>Insert_after i\<close>). Reading past the end of the buffer is a memory
  fault (\<open>None\<close>).
\<close>

datatype scan_result = Found | Insert_after int

function explicit_data_scan :: "64 word list \<Rightarrow> 64 word \<Rightarrow> int \<Rightarrow> scan_result option" where
  "explicit_data_scan buf data i =
     (if i \<ge> 0
      then (if nat i < length buf
            then (if buf ! nat i = data then Some Found
                  else if buf ! nat i < data then Some (Insert_after i)
                  else explicit_data_scan buf data (i - 1))
            else None)
      else Some (Insert_after i))"
  by pat_completeness auto
termination
  by (relation "measure (\<lambda>(buf, data, i). nat (i + 1))") auto

declare explicit_data_scan.simps [simp del]

text \<open>
  \<^verbatim>\<open>memmove\<close> inside one array of 64-bit values, in elements: \<open>cnt\<close> elements from index
  \<open>src\<close> to index \<open>dst\<close>, the source read before the destination is written.
\<close>

definition memmove_u64 :: "64 word list \<Rightarrow> nat \<Rightarrow> nat \<Rightarrow> nat \<Rightarrow> 64 word list option" where
  "memmove_u64 buf dst src cnt =
     (if dst + cnt \<le> length buf \<and> src + cnt \<le> length buf
      then Some (take dst buf @ take cnt (drop src buf) @ drop (dst + cnt) buf)
      else None)"

text \<open>
  \<^verbatim>\<open>HyperLogLog::_explicit_data_insert\<close>, on the contents of the array \<^verbatim>\<open>_explicit_data\<close>
  points to and on \<^verbatim>\<open>_explicit_data_num\<close> (a \<^verbatim>\<open>uint32_t\<close>). \<^verbatim>\<open>i\<close> is an \<^verbatim>\<open>int32_t\<close>:
  \<^verbatim>\<open>(int32_t)_explicit_data_num - 1\<close> overflows when the count reads as the least
  \<^verbatim>\<open>int32_t\<close>. \<^verbatim>\<open>n\<close> is the byte count \<^verbatim>\<open>(_explicit_data_num - i) * sizeof(uint64_t)\<close>, the
  difference taken in \<^verbatim>\<open>uint32_t\<close>. A count that reads as a negative \<^verbatim>\<open>int32_t\<close> skips
  the loop and leaves an insert position below 0, which addresses memory before the array:
  a memory fault. The result is the returned flag with the new array contents and count.
\<close>

definition explicit_data_insert ::
  "64 word \<Rightarrow> 64 word list \<times> 32 word \<Rightarrow> (bool \<times> 64 word list \<times> 32 word) option" where
  "explicit_data_insert data st =
     (case st of (buf, num) \<Rightarrow>
        if sint num = - (2 ^ 31) then None
        else
          case explicit_data_scan buf data (sint num - 1) of
            None \<Rightarrow> None
          | Some Found \<Rightarrow> Some (False, buf, num)
          | Some (Insert_after j) \<Rightarrow>
              let i = j + 1
              in if i < 0 then None
                 else
                   let n = unat (num - word_of_int i) * 8
                   in case (if n \<noteq> 0
                            then memmove_u64 buf (nat i + 1) (nat i) (n div 8)
                            else Some buf) of
                        None \<Rightarrow> None
                      | Some moved \<Rightarrow>
                          if nat i < length moved
                          then Some (True, moved[nat i := data], num + 1)
                          else None)"

section \<open>The sketch object and its storage\<close>

text \<open>
  \<^verbatim>\<open>enum HllDataType\<close> with its four enumerators; a \<^verbatim>\<open>switch\<close> over it reaches its
  \<^verbatim>\<open>default\<close> label for no value of the type.
\<close>

datatype HllDataType = HLL_DATA_EMPTY | HLL_DATA_EXPLICIT | HLL_DATA_SPARSE | HLL_DATA_FULL

type_synonym addr = nat

text \<open>
  The data members of \<^verbatim>\<open>class HyperLogLog\<close>: \<^verbatim>\<open>_type\<close>, \<^verbatim>\<open>_explicit_data_num\<close>,
  \<^verbatim>\<open>_explicit_data\<close> and \<^verbatim>\<open>_registers\<close>. A pointer is an address or \<open>None\<close> for \<^verbatim>\<open>nullptr\<close>.
\<close>

record HyperLogLog =
  hll_type :: HllDataType
  explicit_data_num :: "32 word"
  explicit_data :: "addr option"
  registers :: "addr option"

text \<open>
  The store: the sketch objects alive, by address, and the heap arrays of \<^verbatim>\<open>uint64_t\<close>
  and of \<^verbatim>\<open>uint8_t\<close> currently allocated, by address. An operation that reads or frees
  storage that is not allocated has no defined result (\<open>None\<close>).
\<close>

record store =
  objects :: "addr \<Rightarrow> HyperLogLog option"
  u64_arrays :: "addr \<Rightarrow> 64 word list option"
  u8_arrays :: "addr \<Rightarrow> 8 word list option"

text \<open>The default member initialisers, which every constructor starts from.\<close>

definition HyperLogLog_init :: HyperLogLog where
  "HyperLogLog_init =
     \<lparr>hll_type = HLL_DATA_EMPTY, explicit_data_num = 0, explicit_data = None, registers = None\<rparr>"

text \<open>
  \<^verbatim>\<open>new uint64_t[...]\<close> and \<^verbatim>\<open>new uint8_t[...]\<close>: the allocator's answer, an address \<open>p\<close> and
  the indeterminate initial contents \<open>init\<close> of the block, is a parameter.
\<close>

definition new_u64 :: "addr \<Rightarrow> 64 word list \<Rightarrow> store \<Rightarrow> store" where
  "new_u64 p init s = s\<lparr>u64_arrays := (u64_arrays s)(p \<mapsto> init)\<rparr>"

definition new_u8 :: "addr \<Rightarrow> 8 word list \<Rightarrow> store \<Rightarrow> store" where
  "new_u8 p init s = s\<lparr>u8_arrays := (u8_arrays s)(p \<mapsto> init)\<rparr>"

text \<open>\<^verbatim>\<open>delete[]\<close>: nothing for \<^verbatim>\<open>nullptr\<close>, otherwise the block must be allocated.\<close>

definition delete_u64 :: "addr option \<Rightarrow> store \<Rightarrow> store option" where
  "delete_u64 ptr s =
     (case ptr of
        None \<Rightarrow> Some s
      | Some a \<Rightarrow>
          (case u64_arrays s a of
             None \<Rightarrow> None
           | Some buf \<Rightarrow> Some (s\<lparr>u64_arrays := (u64_arrays s)(a := None)\<rparr>)))"

definition delete_u8 :: "addr option \<Rightarrow> store \<Rightarrow> store option" where
  "delete_u8 ptr s =
     (case ptr of
        None \<Rightarrow> Some s
      | Some a \<Rightarrow>
          (case u8_arrays s a of
             None \<Rightarrow> None
           | Some buf \<Rightarrow> Some (s\<lparr>u8_arrays := (u8_arrays s)(a := None)\<rparr>)))"

text \<open>
  \<^verbatim>\<open>memcpy\<close> of \<open>n\<close> elements between two distinct allocated arrays, from the start of the
  source to the start of the destination.
\<close>

definition memcpy_u64 :: "addr option \<Rightarrow> addr option \<Rightarrow> nat \<Rightarrow> store \<Rightarrow> store option" where
  "memcpy_u64 dst src n s =
     (case (dst, src) of
        (Some d, Some a) \<Rightarrow>
          (case (u64_arrays s d, u64_arrays s a) of
             (Some to, Some from) \<Rightarrow>
               if d \<noteq> a \<and> n \<le> length to \<and> n \<le> length from
               then Some (s\<lparr>u64_arrays := (u64_arrays s)(d \<mapsto> take n from @ drop n to)\<rparr>)
               else None
           | _ \<Rightarrow> None)
      | _ \<Rightarrow> None)"

definition memcpy_u8 :: "addr option \<Rightarrow> addr option \<Rightarrow> nat \<Rightarrow> store \<Rightarrow> store option" where
  "memcpy_u8 dst src n s =
     (case (dst, src) of
        (Some d, Some a) \<Rightarrow>
          (case (u8_arrays s d, u8_arrays s a) of
             (Some to, Some from) \<Rightarrow>
               if d \<noteq> a \<and> n \<le> length to \<and> n \<le> length from
               then Some (s\<lparr>u8_arrays := (u8_arrays s)(d \<mapsto> take n from @ drop n to)\<rparr>)
               else None
           | _ \<Rightarrow> None)
      | _ \<Rightarrow> None)"

subsection \<open>Constructors\<close>

text \<open>\<^verbatim>\<open>explicit HyperLogLog(uint64_t hash_value)\<close>, building the object at address \<open>this\<close>.\<close>

definition construct_from_hash ::
  "addr \<Rightarrow> 64 word \<Rightarrow> addr \<Rightarrow> 64 word list \<Rightarrow> store \<Rightarrow> store option" where
  "construct_from_hash this hash_value p init s =
     (let t = HyperLogLog_init\<lparr>hll_type := HLL_DATA_EXPLICIT\<rparr>;
          s = new_u64 p init s;
          t = t\<lparr>explicit_data := Some p\<rparr>
      in case u64_arrays s p of
           None \<Rightarrow> None
         | Some buf \<Rightarrow>
             if 0 < length buf
             then Some (s\<lparr>u64_arrays := (u64_arrays s)(p \<mapsto> buf[0 := hash_value]),
                          objects := (objects s)(this \<mapsto> t\<lparr>explicit_data_num := 1\<rparr>)\<rparr>)
             else None)"

text \<open>
  The \<^verbatim>\<open>switch (other._type)\<close> of the copy constructor, which copy assignment repeats
  word for word: \<open>t\<close> is \<^verbatim>\<open>*this\<close> with \<^verbatim>\<open>_type\<close> already assigned, \<open>oth\<close> is \<^verbatim>\<open>other\<close>.
  \<^verbatim>\<open>HLL_DATA_SPARSE\<close> and \<^verbatim>\<open>HLL_DATA_FULL\<close> share one block.
\<close>

definition copy_registers_block ::
  "HyperLogLog \<Rightarrow> HyperLogLog \<Rightarrow> addr \<Rightarrow> 8 word list \<Rightarrow> store \<Rightarrow> (HyperLogLog \<times> store) option" where
  "copy_registers_block t oth p init8 s =
     (let s = new_u8 p init8 s;
          t = t\<lparr>registers := Some p\<rparr>
      in case memcpy_u8 (registers t) (registers oth) HLL_REGISTERS_COUNT s of
           None \<Rightarrow> None
         | Some s \<Rightarrow> Some (t, s))"

definition copy_switch ::
  "HyperLogLog \<Rightarrow> HyperLogLog \<Rightarrow> addr \<Rightarrow> 64 word list \<Rightarrow> 8 word list \<Rightarrow> store
     \<Rightarrow> (HyperLogLog \<times> store) option" where
  "copy_switch t oth p init64 init8 s =
     (case hll_type oth of
        HLL_DATA_EMPTY \<Rightarrow> Some (t, s)
      | HLL_DATA_EXPLICIT \<Rightarrow>
          (let t = t\<lparr>explicit_data_num := explicit_data_num oth\<rparr>;
               s = new_u64 p init64 s;
               t = t\<lparr>explicit_data := Some p\<rparr>
           in case memcpy_u64 (explicit_data t) (explicit_data oth)
                     (unat (explicit_data_num t)) s of
                None \<Rightarrow> None
              | Some s \<Rightarrow> Some (t, s))
      | HLL_DATA_SPARSE \<Rightarrow> copy_registers_block t oth p init8 s
      | HLL_DATA_FULL \<Rightarrow> copy_registers_block t oth p init8 s)"

text \<open>\<^verbatim>\<open>HyperLogLog(const HyperLogLog& other)\<close>, building the object at address \<open>this\<close>.\<close>

definition copy_construct ::
  "addr \<Rightarrow> addr \<Rightarrow> addr \<Rightarrow> 64 word list \<Rightarrow> 8 word list \<Rightarrow> store \<Rightarrow> store option" where
  "copy_construct this other p init64 init8 s =
     (case objects s other of
        None \<Rightarrow> None
      | Some oth \<Rightarrow>
          (let t = HyperLogLog_init\<lparr>hll_type := hll_type oth\<rparr>
           in case copy_switch t oth p init64 init8 s of
                None \<Rightarrow> None
              | Some (t, s) \<Rightarrow> Some (s\<lparr>objects := (objects s)(this \<mapsto> t)\<rparr>)))"

text \<open>
  The \<^verbatim>\<open>switch (other._type)\<close> of the move constructor, which move assignment repeats word
  for word; it returns \<^verbatim>\<open>*this\<close> and \<^verbatim>\<open>other\<close>.
\<close>

definition move_registers_block :: "HyperLogLog \<Rightarrow> HyperLogLog \<Rightarrow> HyperLogLog \<times> HyperLogLog" where
  "move_registers_block t oth =
     (let t = t\<lparr>registers := registers oth\<rparr>;
          oth = oth\<lparr>registers := None\<rparr>;
          oth = oth\<lparr>hll_type := HLL_DATA_EMPTY\<rparr>
      in (t, oth))"

definition move_switch :: "HyperLogLog \<Rightarrow> HyperLogLog \<Rightarrow> HyperLogLog \<times> HyperLogLog" where
  "move_switch t oth =
     (case hll_type oth of
        HLL_DATA_EMPTY \<Rightarrow> (t, oth)
      | HLL_DATA_EXPLICIT \<Rightarrow>
          (let t = t\<lparr>explicit_data_num := explicit_data_num oth\<rparr>;
               t = t\<lparr>explicit_data := explicit_data oth\<rparr>;
               oth = oth\<lparr>explicit_data_num := 0\<rparr>;
               oth = oth\<lparr>explicit_data := None\<rparr>;
               oth = oth\<lparr>hll_type := HLL_DATA_EMPTY\<rparr>
           in (t, oth))
      | HLL_DATA_SPARSE \<Rightarrow> move_registers_block t oth
      | HLL_DATA_FULL \<Rightarrow> move_registers_block t oth)"

text \<open>\<^verbatim>\<open>HyperLogLog(HyperLogLog&& other)\<close>, building the object at address \<open>this\<close>.\<close>

definition move_construct :: "addr \<Rightarrow> addr \<Rightarrow> store \<Rightarrow> store option" where
  "move_construct this other s =
     (case objects s other of
        None \<Rightarrow> None
      | Some oth \<Rightarrow>
          (let t = HyperLogLog_init\<lparr>hll_type := hll_type oth\<rparr>
           in case move_switch t oth of
                (t, oth) \<Rightarrow> Some (s\<lparr>objects := (objects s)(other \<mapsto> oth, this \<mapsto> t)\<rparr>)))"

subsection \<open>Assignment\<close>

text \<open>
  Both assignment operators first release what \<^verbatim>\<open>*this\<close> holds: each array is freed if its
  pointer is not null, the pointer is set to null, and the count to 0.
\<close>

definition release_for_assign :: "HyperLogLog \<Rightarrow> store \<Rightarrow> (HyperLogLog \<times> store) option" where
  "release_for_assign t s =
     (case (if registers t \<noteq> None
            then map_option (Pair (t\<lparr>registers := None\<rparr>)) (delete_u8 (registers t) s)
            else Some (t, s)) of
        None \<Rightarrow> None
      | Some (t, s) \<Rightarrow>
          (case (if explicit_data t \<noteq> None
                 then map_option (Pair (t\<lparr>explicit_data := None\<rparr>)) (delete_u64 (explicit_data t) s)
                 else Some (t, s)) of
             None \<Rightarrow> None
           | Some (t, s) \<Rightarrow> Some (t\<lparr>explicit_data_num := 0\<rparr>, s)))"

text \<open>\<^verbatim>\<open>operator=(HyperLogLog&& other)\<close> on the object at address \<open>this\<close>.\<close>

definition move_assign :: "addr \<Rightarrow> addr \<Rightarrow> store \<Rightarrow> store option" where
  "move_assign this other s =
     (if this \<noteq> other
      then (case (objects s this, objects s other) of
              (Some t, Some oth) \<Rightarrow>
                (case release_for_assign t s of
                   None \<Rightarrow> None
                 | Some (t, s) \<Rightarrow>
                     (let t = t\<lparr>hll_type := hll_type oth\<rparr>
                      in case move_switch t oth of
                           (t, oth) \<Rightarrow>
                             Some (s\<lparr>objects := (objects s)(other \<mapsto> oth, this \<mapsto> t)\<rparr>)))
            | _ \<Rightarrow> None)
      else Some s)"

text \<open>\<^verbatim>\<open>operator=(const HyperLogLog& other)\<close> on the object at address \<open>this\<close>.\<close>

definition copy_assign ::
  "addr \<Rightarrow> addr \<Rightarrow> addr \<Rightarrow> 64 word list \<Rightarrow> 8 word list \<Rightarrow> store \<Rightarrow> store option" where
  "copy_assign this other p init64 init8 s =
     (if this \<noteq> other
      then (case (objects s this, objects s other) of
              (Some t, Some oth) \<Rightarrow>
                (case release_for_assign t s of
                   None \<Rightarrow> None
                 | Some (t, s) \<Rightarrow>
                     (let t = t\<lparr>hll_type := hll_type oth\<rparr>
                      in case copy_switch t oth p init64 init8 s of
                           None \<Rightarrow> None
                         | Some (t, s) \<Rightarrow> Some (s\<lparr>objects := (objects s)(this \<mapsto> t)\<rparr>)))
            | _ \<Rightarrow> None)
      else Some s)"

subsection \<open>clear and memory_consumed\<close>

text \<open>\<^verbatim>\<open>HyperLogLog::clear\<close> on the object at address \<open>this\<close>.\<close>

definition clear :: "addr \<Rightarrow> store \<Rightarrow> store option" where
  "clear this s =
     (case objects s this of
        None \<Rightarrow> None
      | Some t \<Rightarrow>
          (let t = t\<lparr>hll_type := HLL_DATA_EMPTY\<rparr>
           in case delete_u8 (registers t) s of
                None \<Rightarrow> None
              | Some s \<Rightarrow>
                  (let t = t\<lparr>registers := None\<rparr>
                   in case delete_u64 (explicit_data t) s of
                        None \<Rightarrow> None
                      | Some s \<Rightarrow>
                          (let t = t\<lparr>explicit_data := None\<rparr>;
                               t = t\<lparr>explicit_data_num := 0\<rparr>
                           in Some (s\<lparr>objects := (objects s)(this \<mapsto> t)\<rparr>)))))"

text \<open>
  \<^verbatim>\<open>HyperLogLog::memory_consumed\<close>. \<^verbatim>\<open>sizeof(*this)\<close> depends on the platform's layout and is
  a parameter; the sums stay far below the range of \<^verbatim>\<open>size_t\<close>.
\<close>

definition memory_consumed :: "nat \<Rightarrow> HyperLogLog \<Rightarrow> nat" where
  "memory_consumed sizeof_this t =
     (let size = sizeof_this;
          size = (if explicit_data t \<noteq> None then size + HLL_EXPLICIT_INT64_NUM_DOUBLE else size);
          size = (if registers t \<noteq> None then size + HLL_REGISTERS_COUNT else size)
      in size)"

subsection \<open>The class invariant\<close>

text \<open>
  Which fields go with which tag: an empty sketch holds nothing, an explicit sketch owns
  an array of \<^verbatim>\<open>HLL_EXPLICIT_INT64_NUM_DOUBLE\<close> values of which the first
  \<^verbatim>\<open>_explicit_data_num\<close> are in use, a sparse or full sketch owns an array of
  \<^verbatim>\<open>HLL_REGISTERS_COUNT\<close> registers; the pointer that does not go with the tag is null.
\<close>

definition owns_u64 :: "store \<Rightarrow> addr option \<Rightarrow> bool" where
  "owns_u64 s ptr =
     (case ptr of
        None \<Rightarrow> False
      | Some a \<Rightarrow>
          (case u64_arrays s a of
             None \<Rightarrow> False
           | Some buf \<Rightarrow> length buf = HLL_EXPLICIT_INT64_NUM_DOUBLE))"

definition owns_u8 :: "store \<Rightarrow> addr option \<Rightarrow> bool" where
  "owns_u8 s ptr =
     (case ptr of
        None \<Rightarrow> False
      | Some a \<Rightarrow>
          (case u8_arrays s a of
             None \<Rightarrow> False
           | Some regs \<Rightarrow> length regs = HLL_REGISTERS_COUNT))"

definition sketch_inv :: "store \<Rightarrow> HyperLogLog \<Rightarrow> bool" where
  "sketch_inv s t =
     (case hll_type t of
        HLL_DATA_EMPTY \<Rightarrow>
          explicit_data t = None \<and> registers t = None \<and> explicit_data_num t = 0
      | HLL_DATA_EXPLICIT \<Rightarrow>
          registers t = None \<and> owns_u64 s (explicit_data t)
          \<and> unat (explicit_data_num t) \<le> HLL_EXPLICIT_INT64_NUM_DOUBLE
      | HLL_DATA_SPARSE \<Rightarrow>
          explicit_data t = None \<and> explicit_data_num t = 0 \<and> owns_u8 s (registers t)
      | HLL_DATA_FULL \<Rightarrow>
          explicit_data t = None \<and> explicit_data_num t = 0 \<and> owns_u8 s (registers t))"

text \<open>Every pointer of a sketch that is not null refers to an allocated array.\<close>

definition pointers_valid :: "store \<Rightarrow> HyperLogLog \<Rightarrow> bool" where
  "pointers_valid s t =
     ((case explicit_data t of None \<Rightarrow> True | Some a \<Rightarrow> u64_arrays s a \<noteq> None)
      \<and> (case registers t of None \<Rightarrow> True | Some a \<Rightarrow> u8_arrays s a \<noteq> None))"

text \<open>Two sketches share no array: a pointer they have in common is null.\<close>

definition disjoint_payload :: "HyperLogLog \<Rightarrow> HyperLogLog \<Rightarrow> bool" where
  "disjoint_payload t oth =
     ((explicit_data t = None \<or> explicit_data t \<noteq> explicit_data oth)
      \<and> (registers t = None \<or> registers t \<noteq> registers oth))"

text \<open>
  The payload a sketch holds: the values in use of its explicit array, and its register
  array.
\<close>

definition explicit_payload :: "store \<Rightarrow> HyperLogLog \<Rightarrow> 64 word list option" where
  "explicit_payload s t =
     (case explicit_data t of
        None \<Rightarrow> None
      | Some a \<Rightarrow> map_option (take (unat (explicit_data_num t))) (u64_arrays s a))"

definition registers_payload :: "store \<Rightarrow> HyperLogLog \<Rightarrow> 8 word list option" where
  "registers_payload s t =
     (case registers t of
        None \<Rightarrow> None
      | Some a \<Rightarrow> u8_arrays s a)"

text \<open>The store once the arrays a sketch points to are freed.\<close>

definition without_arrays_of :: "store \<Rightarrow> HyperLogLog \<Rightarrow> store" where
  "without_arrays_of s t =
     s\<lparr>u64_arrays := (case explicit_data t of
                        None \<Rightarrow> u64_arrays s
                      | Some a \<Rightarrow> (u64_arrays s)(a := None)),
       u8_arrays := (case registers t of
                       None \<Rightarrow> u8_arrays s
                     | Some a \<Rightarrow> (u8_arrays s)(a := None))\<rparr>"

subsection \<open>A concrete store\<close>

text \<open>
  Two sketches used to exercise the theorems: at address 1 an explicit sketch holding the
  hashes 5 and 9, at address 2 a full sketch whose registers are all zero.
\<close>

definition example_explicit :: HyperLogLog where
  "example_explicit =
     \<lparr>hll_type = HLL_DATA_EXPLICIT, explicit_data_num = 2, explicit_data = Some 10,
      registers = None\<rparr>"

definition example_full :: HyperLogLog where
  "example_full =
     \<lparr>hll_type = HLL_DATA_FULL, explicit_data_num = 0, explicit_data = None,
      registers = Some 20\<rparr>"

definition example_store :: store where
  "example_store =
     \<lparr>objects = [1 \<mapsto> example_explicit, 2 \<mapsto> example_full],
      u64_arrays = [10 \<mapsto> 5 # 9 # replicate 318 0],
      u8_arrays = [20 \<mapsto> replicate 16384 0]\<rparr>"

text \<open>
  A store with a single sketch and nothing else: the explicit sketch at address 1 that
  \<^verbatim>\<open>HyperLogLog(9)\<close> builds, its array at address 10.
\<close>

definition lone_explicit :: HyperLogLog where
  "lone_explicit =
     \<lparr>hll_type = HLL_DATA_EXPLICIT, explicit_data_num = 1, explicit_data = Some 10,
      registers = None\<rparr>"

definition lone_store :: store where
  "lone_store =
     \<lparr>objects = [1 \<mapsto> lone_explicit],
      u64_arrays = [10 \<mapsto> 9 # replicate 319 0],
      u8_arrays = Map.empty\<rparr>"

section \<open>The codec\<close>

text \<open>
  A \<^verbatim>\<open>Slice\<close> is a byte buffer with its length: a list of bytes. The bodies of
  \<^verbatim>\<open>HyperLogLog::is_valid\<close> and \<^verbatim>\<open>HyperLogLog::deserialize\<close> are declared in
  \<^verbatim>\<open>hll.h\<close> and defined elsewhere; the definitions of this section follow the
  specification's sections 3, 4.5 and 7.
\<close>

text \<open>
  Modelled from the spec: the decoding helpers of the codec, which are not among the
  sources. First, a little-endian unsigned number from its bytes.
\<close>

fun le_value :: "8 word list \<Rightarrow> nat" where
  "le_value [] = 0"
| "le_value (b # bs) = unat b + 256 * le_value bs"

text \<open>
  Modelled from the spec: the count \<open>k\<close> of a sparse encoding, bytes 1 to 4 of the
  buffer, that is the first four bytes after the tag, as a signed 32-bit little-endian
  number.
\<close>

definition sparse_count :: "8 word list \<Rightarrow> int" where
  "sparse_count payload = sint (word_of_nat (le_value (take 4 payload)) :: 32 word)"

text \<open>
  Modelled from the spec: the body of \<^verbatim>\<open>HyperLogLog::is_valid\<close>, which is not among the
  sources. It reads byte 0 and then checks the length the tag calls for: at least 1 byte
  for tag 0; a count byte \<open>n\<close> and then exactly \<open>8 n\<close> bytes for tag 1; a four-byte count
  \<open>k\<close> and then exactly \<open>3 k\<close> bytes for tag 2; at least \<^verbatim>\<open>HLL_REGISTERS_COUNT\<close> bytes
  after the tag for tag 3.
\<close>

definition is_valid :: "8 word list \<Rightarrow> bool" where
  "is_valid input =
     (case input of
        [] \<Rightarrow> False
      | tag # payload \<Rightarrow>
          if tag = 0 then True
          else if tag = 1 then
            (case payload of
               [] \<Rightarrow> False
             | n # hashes \<Rightarrow> length hashes = 8 * unat n)
          else if tag = 2 then
            4 \<le> length payload \<and> int (length payload - 4) = 3 * sparse_count payload
          else if tag = 3 then HLL_REGISTERS_COUNT \<le> length payload
          else False)"

text \<open>
  Modelled from the spec: the sketch as the tagged union of the specification's data model,
  each kind carrying its payload.
\<close>

datatype sketch =
  EMPTY
| EXPLICIT "64 word list"
| SPARSE "(nat \<times> 8 word) list"
| FULL "8 word list"

datatype codec_error = InvalidEncoding

text \<open>
  Modelled from the spec: the hashes of an explicit encoding, groups of eight bytes,
  little-endian.
\<close>

fun decode_hashes :: "8 word list \<Rightarrow> 64 word list" where
  "decode_hashes (b0 # b1 # b2 # b3 # b4 # b5 # b6 # b7 # rest) =
     word_of_nat (le_value [b0, b1, b2, b3, b4, b5, b6, b7]) # decode_hashes rest"
| "decode_hashes rest = []"

text \<open>
  Modelled from the spec: the records of a sparse encoding, a 16-bit little-endian
  register index and a value byte each; an index that is not below
  \<^verbatim>\<open>HLL_REGISTERS_COUNT\<close> is an error.
\<close>

fun decode_sparse :: "8 word list \<Rightarrow> codec_error + (nat \<times> 8 word) list" where
  "decode_sparse (lo # hi # v # rest) =
     (let idx = le_value [lo, hi]
      in if HLL_REGISTERS_COUNT \<le> idx then Inl InvalidEncoding
         else (case decode_sparse rest of
                 Inl e \<Rightarrow> Inl e
               | Inr records \<Rightarrow> Inr ((idx, v) # records)))"
| "decode_sparse rest = Inr []"

text \<open>
  Modelled from the spec: \<^verbatim>\<open>from_bytes\<close>, the decoder of the byte layout, which is not
  among the sources. It fails with \<open>InvalidEncoding\<close> on an unknown tag, on a length that
  does not match the one declared, and on a sparse index out of range.
\<close>

definition from_bytes :: "8 word list \<Rightarrow> codec_error + sketch" where
  "from_bytes input =
     (case input of
        [] \<Rightarrow> Inl InvalidEncoding
      | tag # payload \<Rightarrow>
          if tag = 0 then Inr EMPTY
          else if tag = 1 then
            (case payload of
               [] \<Rightarrow> Inl InvalidEncoding
             | n # hashes \<Rightarrow>
                 if length hashes = 8 * unat n then Inr (EXPLICIT (decode_hashes hashes))
                 else Inl InvalidEncoding)
          else if tag = 2 then
            (if 4 \<le> length payload \<and> int (length payload - 4) = 3 * sparse_count payload
             then (case decode_sparse (drop 4 payload) of
                     Inl e \<Rightarrow> Inl e
                   | Inr records \<Rightarrow> Inr (SPARSE records))
             else Inl InvalidEncoding)
          else if tag = 3 then
            (if HLL_REGISTERS_COUNT \<le> length payload
             then Inr (FULL (take HLL_REGISTERS_COUNT payload))
             else Inl InvalidEncoding)
          else Inl InvalidEncoding)"

text \<open>
  Modelled from the spec: the body of \<^verbatim>\<open>HyperLogLog::deserialize\<close>, which is not among the
  sources. A buffer that decodes replaces whatever the target held; on an error the target
  is left as it was. The result is the outcome and the target afterwards.
\<close>

definition deserialize :: "8 word list \<Rightarrow> sketch \<Rightarrow> (codec_error + unit) \<times> sketch" where
  "deserialize input target =
     (case from_bytes input of
        Inl e \<Rightarrow> (Inl e, target)
      | Inr decoded \<Rightarrow> (Inr (), decoded))"

text \<open>
  The three conditions under which the specification lets decoding fail, on the bytes of
  the buffer by position.
\<close>

definition tag_unknown :: "8 word list \<Rightarrow> bool" where
  "tag_unknown bs = (bs = [] \<or> 3 < unat (bs ! 0))"

definition length_mismatch :: "8 word list \<Rightarrow> bool" where
  "length_mismatch bs =
     (bs \<noteq> []
      \<and> ((bs ! 0 = 1 \<and> (length bs < 2 \<or> length bs \<noteq> 2 + 8 * unat (bs ! 1)))
         \<or> (bs ! 0 = 2
             \<and> (length bs < 5 \<or> int (length bs) \<noteq> 5 + 3 * sparse_count (tl bs)))
         \<or> (bs ! 0 = 3 \<and> length bs < 1 + HLL_REGISTERS_COUNT)))"

definition sparse_index :: "8 word list \<Rightarrow> nat \<Rightarrow> nat" where
  "sparse_index bs i = unat (bs ! (5 + 3 * i)) + 256 * unat (bs ! (6 + 3 * i))"

definition sparse_index_out_of_range :: "8 word list \<Rightarrow> bool" where
  "sparse_index_out_of_range bs =
     (bs \<noteq> [] \<and> bs ! 0 = 2 \<and> 5 \<le> length bs
      \<and> int (length bs) = 5 + 3 * sparse_count (tl bs)
      \<and> (\<exists>i < (length bs - 5) div 3. HLL_REGISTERS_COUNT \<le> sparse_index bs i))"

section \<open>Verification of the register engine\<close>

lemma ctz_scan_bit:
  "\<exists>i<n. bit w i \<Longrightarrow> bit w (ctz_scan n w) \<and> (\<forall>j<ctz_scan n w. \<not> bit w j) \<and> ctz_scan n w < n"
proof (induction n arbitrary: w)
  case 0
  then show ?case by simp
next
  case (Suc n)
  show ?case
  proof (cases "bit w 0")
    case True
    then show ?thesis by simp
  next
    case False
    from Suc.prems obtain i where i: "i < Suc n" "bit w i" by blast
    with False have "i \<noteq> 0" by (cases i) auto
    then obtain i' where i': "i = Suc i'" by (cases i) auto
    with i have "\<exists>k<n. bit (drop_bit 1 w) k"
      by (auto simp: bit_drop_bit_eq intro!: exI[of _ i'])
    from Suc.IH[OF this] have IH: "bit (drop_bit 1 w) (ctz_scan n (drop_bit 1 w))"
      "\<forall>j<ctz_scan n (drop_bit 1 w). \<not> bit (drop_bit 1 w) j"
      "ctz_scan n (drop_bit 1 w) < n" by auto
    have "\<not> bit w j" if "j < Suc (ctz_scan n (drop_bit 1 w))" for j
    proof (cases j)
      case 0
      then show ?thesis using False by simp
    next
      case (Suc j')
      with that IH(2) show ?thesis by (auto simp: bit_drop_bit_eq)
    qed
    with False IH show ?thesis by (auto simp: bit_drop_bit_eq)
  qed
qed

lemma forced_bit_50: "bit (drop_bit 14 h OR (2 ^ 50 :: 64 word)) 50"
  by (simp add: bit_or_iff bit_exp_iff)

lemma builtin_ctzl_forced:
  fixes h :: "64 word"
  defines "w \<equiv> drop_bit 14 h OR (2 ^ 50 :: 64 word)"
  shows "\<exists>z. builtin_ctzl w = Some z \<and> bit w z \<and> (\<forall>j<z. \<not> bit w j) \<and> z \<le> 50"
proof -
  have b50: "bit w 50" unfolding w_def by (rule forced_bit_50)
  then have ex: "\<exists>i<64. bit w i" by (intro exI[of _ 50]) simp
  have nz: "w \<noteq> 0" using b50 by auto
  note s = ctz_scan_bit[OF ex]
  have "ctz_scan 64 w \<le> 50"
  proof (rule ccontr)
    assume "\<not> ctz_scan 64 w \<le> 50"
    then have "50 < ctz_scan 64 w" by simp
    with s have "\<not> bit w 50" by blast
    with b50 show False by simp
  qed
  with s nz show ?thesis by (simp add: builtin_ctzl_def)
qed

lemma unat_first_one_bit: "z \<le> 50 \<Longrightarrow> unat (word_of_nat (z + 1) :: 8 word) = z + 1"
  by (simp add: unat_of_nat del: of_nat_Suc of_nat_add)

lemma unat_idx: "unat ((h :: 64 word) mod word_of_nat HLL_REGISTERS_COUNT) = unat h mod 16384"
  by (simp add: HLL_REGISTERS_COUNT_def unat_mod)

text \<open>
  C1. For every 64-bit hash \<open>h\<close> and every register array of 16384 bytes,
  \<^verbatim>\<open>_update_registers\<close> returns; with \<open>z\<close> the number of trailing zero bits of
  \<open>(h >> 14) | 2^50\<close> (bit \<open>z\<close> is set and no lower bit is), the new value of register
  \<open>h mod 16384\<close> is the maximum of its old value and \<open>z + 1\<close>, which lies in \<open>[1, 51]\<close>, and
  every other register keeps its value.
\<close>

theorem update_registers_sets_max:
  assumes len: "length regs = HLL_REGISTERS_COUNT"
  shows "\<exists>z regs'.
     builtin_ctzl (drop_bit 14 h OR 2 ^ 50) = Some z
     \<and> bit (drop_bit 14 h OR (2 ^ 50 :: 64 word)) z
     \<and> (\<forall>j<z. \<not> bit (drop_bit 14 h OR (2 ^ 50 :: 64 word)) j)
     \<and> 1 \<le> z + 1 \<and> z + 1 \<le> 51
     \<and> update_registers h regs = Some regs'
     \<and> length regs' = HLL_REGISTERS_COUNT
     \<and> unat (regs' ! (unat h mod 16384)) = max (unat (regs ! (unat h mod 16384))) (z + 1)
     \<and> (\<forall>j<HLL_REGISTERS_COUNT. j \<noteq> unat h mod 16384 \<longrightarrow> regs' ! j = regs ! j)"
proof -
  let ?w = "drop_bit 14 h OR (2 ^ 50 :: 64 word)"
  let ?idx = "unat h mod 16384"
  obtain z where z: "builtin_ctzl ?w = Some z" "bit ?w z" "\<forall>j<z. \<not> bit ?w j" "z \<le> 50"
    using builtin_ctzl_forced[of h] by blast
  let ?f = "word_of_nat (z + 1) :: 8 word"
  let ?regs' = "regs[?idx := (if regs ! ?idx > ?f then regs ! ?idx else ?f)]"
  have idx: "?idx < length regs" using len by (simp add: HLL_REGISTERS_COUNT_def)
  have upd: "update_registers h regs = Some ?regs'"
    using z(1) idx
    by (simp add: update_registers_def Let_def unat_idx HLL_COLUMN_PRECISION_def
        HLL_ZERO_COUNT_BITS_def del: of_nat_Suc of_nat_add)
  have val: "unat (?regs' ! ?idx) = max (unat (regs ! ?idx)) (z + 1)"
    using idx unat_first_one_bit[OF z(4)]
    by (auto simp: word_less_nat_alt max_def simp del: of_nat_Suc of_nat_add)
  have frame: "\<forall>j<HLL_REGISTERS_COUNT. j \<noteq> ?idx \<longrightarrow> ?regs' ! j = regs ! j"
    by simp
  show ?thesis
    using z upd val frame len by (intro exI[of _ z] exI[of _ ?regs']) simp
qed

theorem update_registers_sets_max_witness:
  "length (replicate 16384 (0 :: 8 word)) = 16384 \<and> (\<exists>z regs'.
     builtin_ctzl (drop_bit 14 0x0123456789ABCDEF OR 2 ^ 50) = Some z
     \<and> 1 \<le> z + 1 \<and> z + 1 \<le> 51
     \<and> update_registers 0x0123456789ABCDEF (replicate 16384 0) = Some regs'
     \<and> unat (regs' ! (unat (0x0123456789ABCDEF :: 64 word) mod 16384)) = max (unat ((replicate 16384 0 :: 8 word list) ! (unat (0x0123456789ABCDEF :: 64 word) mod 16384))) (z + 1))"
  using update_registers_sets_max [of "replicate 16384 0" "0x0123456789ABCDEF"]
  by (simp add: HLL_REGISTERS_COUNT_def) blast

lemma merge_registers_loop_eq:
  "i \<le> HLL_REGISTERS_COUNT \<Longrightarrow> length regs = HLL_REGISTERS_COUNT \<Longrightarrow> length other = HLL_REGISTERS_COUNT \<Longrightarrow>
   merge_registers_loop i regs other = Some (take i regs @ map2 max (drop i regs) (drop i other))"
proof (induction i regs other rule: merge_registers_loop.induct)
  case (1 i regs other)
  show ?case
  proof (cases "i < HLL_REGISTERS_COUNT")
    case True
    let ?r = "regs[i := (if regs ! i < other ! i then other ! i else regs ! i)]"
    have "merge_registers_loop i regs other = merge_registers_loop (i + 1) ?r other"
      using True 1 by (subst merge_registers_loop.simps) simp
    also have "\<dots> = Some (take (i + 1) ?r @ map2 max (drop (i + 1) ?r) (drop (i + 1) other))"
      using True 1 by simp
    also have "take (i + 1) ?r = take i regs @ [max (regs ! i) (other ! i)]"
      using True 1 by (auto simp: take_Suc_conv_app_nth max_def)
    also have "drop (i + 1) ?r = drop (i + 1) regs" by simp
    finally show ?thesis using True 1
      by (simp add: Cons_nth_drop_Suc[symmetric, of i regs] Cons_nth_drop_Suc[symmetric, of i other])
  next
    case False
    then show ?thesis using 1 by (subst merge_registers_loop.simps) simp
  qed
qed

lemma merge_registers_map2:
  "length regs = HLL_REGISTERS_COUNT \<Longrightarrow> length other = HLL_REGISTERS_COUNT \<Longrightarrow>
   merge_registers regs other = Some (map2 max regs other)"
  unfolding merge_registers_def by (subst merge_registers_loop_eq) simp_all

lemma map2_max_commute: "map2 max xs ys = map2 max ys (xs :: 8 word list)"
  by (induction xs ys rule: list_induct2') (simp_all add: max.commute)

lemma map2_max_assoc:
  "map2 max (map2 max xs ys) zs = map2 max xs (map2 max ys (zs :: 8 word list))"
proof (induction xs arbitrary: ys zs)
  case Nil
  then show ?case by simp
next
  case (Cons x xs)
  then show ?case by (cases ys; cases zs) (simp_all add: max.assoc)
qed

lemma map2_max_idem: "map2 max xs xs = (xs :: 8 word list)"
  by (induction xs) simp_all

lemma unat_max: "unat (max x y) = max (unat x) (unat (y :: 8 word))"
  by (simp add: max_def word_le_nat_alt)

text \<open>
  C2. On register arrays of 16384 bytes \<^verbatim>\<open>_merge_registers\<close> returns the element-wise
  maximum of the two arrays, and as a binary operation it is commutative, associative and
  idempotent.
\<close>

theorem merge_registers_elementwise_max:
  assumes a: "length a = HLL_REGISTERS_COUNT"
    and b: "length b = HLL_REGISTERS_COUNT"
    and c: "length c = HLL_REGISTERS_COUNT"
  shows "\<exists>ab bc abc.
     merge_registers a b = Some ab \<and> length ab = HLL_REGISTERS_COUNT
     \<and> (\<forall>i<HLL_REGISTERS_COUNT. unat (ab ! i) = max (unat (a ! i)) (unat (b ! i)))
     \<and> merge_registers b a = Some ab
     \<and> merge_registers b c = Some bc
     \<and> merge_registers ab c = Some abc \<and> merge_registers a bc = Some abc
     \<and> merge_registers a a = Some a"
proof -
  let ?ab = "map2 max a b" and ?bc = "map2 max b c"
  have ab: "merge_registers a b = Some ?ab" using a b by (rule merge_registers_map2)
  have lab: "length ?ab = HLL_REGISTERS_COUNT" using a b by simp
  have lbc: "length ?bc = HLL_REGISTERS_COUNT" using b c by simp
  have pt: "\<forall>i<HLL_REGISTERS_COUNT. unat (?ab ! i) = max (unat (a ! i)) (unat (b ! i))"
    using a b by (simp add: unat_max)
  have ba: "merge_registers b a = Some ?ab"
    using merge_registers_map2[OF b a] by (simp add: map2_max_commute[of b a])
  have bc: "merge_registers b c = Some ?bc" using b c by (rule merge_registers_map2)
  have abc: "merge_registers ?ab c = Some (map2 max ?ab c)"
    using lab c by (rule merge_registers_map2)
  have abc': "merge_registers a ?bc = Some (map2 max ?ab c)"
    using merge_registers_map2[OF a lbc] by (simp add: map2_max_assoc)
  have aa: "merge_registers a a = Some a"
    using merge_registers_map2[OF a a] by (simp add: map2_max_idem)
  show ?thesis
    apply (rule exI[of _ ?ab], rule exI[of _ ?bc], rule exI[of _ "map2 max ?ab c"])
    apply (intro conjI)
           apply (rule ab lab pt ba bc abc abc' aa)+
    done
qed

theorem merge_registers_elementwise_max_witness:
  "length (replicate 16384 (3 :: 8 word)) = HLL_REGISTERS_COUNT
   \<and> length (replicate 16384 (7 :: 8 word)) = HLL_REGISTERS_COUNT
   \<and> (\<exists>ab. merge_registers (replicate 16384 3) (replicate 16384 7) = Some ab
        \<and> unat (ab ! 5) = max (unat ((replicate 16384 3 :: 8 word list) ! 5)) (unat ((replicate 16384 7 :: 8 word list) ! 5))
        \<and> merge_registers (replicate 16384 7) (replicate 16384 3) = Some ab)"
proof -
  have l3: "length (replicate 16384 (3 :: 8 word)) = HLL_REGISTERS_COUNT"
    by (simp add: HLL_REGISTERS_COUNT_def)
  have l7: "length (replicate 16384 (7 :: 8 word)) = HLL_REGISTERS_COUNT"
    by (simp add: HLL_REGISTERS_COUNT_def)
  have five: "(5 :: nat) < HLL_REGISTERS_COUNT" by (simp add: HLL_REGISTERS_COUNT_def)
  from merge_registers_elementwise_max [OF l3 l7 l7] obtain ab where
    ab: "merge_registers (replicate 16384 3) (replicate 16384 7) = Some ab"
      "\<forall>i<HLL_REGISTERS_COUNT. unat (ab ! i) =
         max (unat ((replicate 16384 3 :: 8 word list) ! i)) (unat ((replicate 16384 7 :: 8 word list) ! i))"
      "merge_registers (replicate 16384 7) (replicate 16384 3) = Some ab"
    by (elim exE conjE)
  note v = ab(2)[rule_format, OF five]
  show ?thesis
    apply (intro conjI)
      apply (rule l3)
     apply (rule l7)
    apply (rule exI[of _ ab])
    apply (intro conjI)
      apply (rule ab(1))
     apply (rule v)
    apply (rule ab(3))
    done
qed

section \<open>Verification of the explicit set\<close>

lemma explicit_data_scan_sorted:
  assumes "sorted_wrt (<) (take m buf)" "m \<le> length buf"
  shows "(data \<in> set (take m buf) \<longrightarrow> explicit_data_scan buf data (int m - 1) = Some Found)
       \<and> (data \<notin> set (take m buf) \<longrightarrow>
            (\<exists>p\<le>m. explicit_data_scan buf data (int m - 1) = Some (Insert_after (int p - 1))
               \<and> (\<forall>k<p. buf ! k < data) \<and> (\<forall>k. p \<le> k \<and> k < m \<longrightarrow> data < buf ! k)))"
  using assms
proof (induction m)
  case 0
  show ?case
    by (subst explicit_data_scan.simps) (simp add: exI[of _ 0])
next
  case (Suc m)
  from Suc.prems have m: "m < length buf" by simp
  have tk: "take (Suc m) buf = take m buf @ [buf ! m]"
    using m by (simp add: take_Suc_conv_app_nth)
  from Suc.prems(1) have srt: "sorted_wrt (<) (take m buf)" and
    below: "\<forall>x\<in>set (take m buf). x < buf ! m"
    by (simp_all add: tk sorted_wrt_append)
  have below': "\<forall>k<m. buf ! k < buf ! m"
  proof (intro allI impI)
    fix k assume "k < m"
    then have "buf ! k \<in> set (take m buf)"
      using m by (auto simp: in_set_conv_nth intro!: exI[of _ k])
    with below show "buf ! k < buf ! m" by blast
  qed
  note IH = Suc.IH[OF srt] 
  have unf: "explicit_data_scan buf data (int (Suc m) - 1) =
      (if buf ! m = data then Some Found
       else if buf ! m < data then Some (Insert_after (int m))
       else explicit_data_scan buf data (int m - 1))"
    using m by (subst explicit_data_scan.simps) simp
  consider (eq) "buf ! m = data" | (lt) "buf ! m < data" | (gt) "data < buf ! m"
    by fastforce
  then show ?case
  proof cases
    case eq
    then show ?thesis using unf tk by simp
  next
    case lt
    have notin: "data \<notin> set (take (Suc m) buf)"
      using lt below by (auto simp: tk)
    have "\<forall>k<Suc m. buf ! k < data"
      using below' lt by (auto simp: less_Suc_eq)
    moreover have "explicit_data_scan buf data (int (Suc m) - 1) = Some (Insert_after (int (Suc m) - 1))"
      using lt unf by auto
    ultimately have "\<exists>p\<le>Suc m. explicit_data_scan buf data (int (Suc m) - 1) = Some (Insert_after (int p - 1))
               \<and> (\<forall>k<p. buf ! k < data) \<and> (\<forall>k. p \<le> k \<and> k < Suc m \<longrightarrow> data < buf ! k)"
      by (intro exI[of _ "Suc m"]) auto
    with notin show ?thesis by blast
  next
    case gt
    then have ne: "buf ! m \<noteq> data" "\<not> buf ! m < data" by auto
    have mem: "data \<in> set (take (Suc m) buf) \<longleftrightarrow> data \<in> set (take m buf)"
      using ne by (auto simp: tk)
    have u: "explicit_data_scan buf data (int (Suc m) - 1) = explicit_data_scan buf data (int m - 1)"
      using unf ne by simp
    from IH m have IH1: "data \<in> set (take m buf) \<longrightarrow> explicit_data_scan buf data (int m - 1) = Some Found"
      and IH2: "data \<notin> set (take m buf) \<longrightarrow>
            (\<exists>p\<le>m. explicit_data_scan buf data (int m - 1) = Some (Insert_after (int p - 1))
               \<and> (\<forall>k<p. buf ! k < data) \<and> (\<forall>k. p \<le> k \<and> k < m \<longrightarrow> data < buf ! k))"
      by simp_all
    show ?thesis
    proof (intro conjI impI)
      assume "data \<in> set (take (Suc m) buf)"
      with mem IH1 u show "explicit_data_scan buf data (int (Suc m) - 1) = Some Found" by simp
    next
      assume "data \<notin> set (take (Suc m) buf)"
      with mem IH2 obtain p where p: "p \<le> m"
        "explicit_data_scan buf data (int m - 1) = Some (Insert_after (int p - 1))"
        "\<forall>k<p. buf ! k < data" "\<forall>k. p \<le> k \<and> k < m \<longrightarrow> data < buf ! k"
        by blast
      have "\<forall>k. p \<le> k \<and> k < Suc m \<longrightarrow> data < buf ! k"
        using p(4) gt by (auto simp: less_Suc_eq)
      with p u show "\<exists>p\<le>Suc m. explicit_data_scan buf data (int (Suc m) - 1) = Some (Insert_after (int p - 1))
               \<and> (\<forall>k<p. buf ! k < data) \<and> (\<forall>k. p \<le> k \<and> k < Suc m \<longrightarrow> data < buf ! k)"
        by (intro exI[of _ p]) simp
    qed
  qed
qed

lemma sint_small:
  assumes "unat (num :: 32 word) < 320"
  shows "sint num = int (unat num)"
proof -
  from assms have u: "uint num < 320"
    by (metis of_nat_less_iff of_nat_numeral uint_nat)
  have lo: "- (2 ^ (LENGTH(32) - Suc 0)) \<le> uint num"
    by (rule order_trans[of _ 0]) simp_all
  have hi: "uint num < 2 ^ (LENGTH(32) - Suc 0)"
    using u by simp
  have "sint num = signed_take_bit (LENGTH(32) - Suc 0) (uint num)" by (rule sint_uint)
  also have "\<dots> = uint num"
    using lo hi by (rule signed_take_bit_int_eq_self)
  also have "\<dots> = int (unat num)" by (rule uint_nat)
  finally show ?thesis .
qed

lemma unat_num_minus:
  "p \<le> unat (num :: 32 word) \<Longrightarrow> unat (num - word_of_int (int p)) = unat num - p"
  by (simp add: le_unat_uoi unat_sub word_le_nat_alt)

lemma unat_num_Suc:
  assumes "unat (num :: 32 word) < 320"
  shows "unat (num + 1) = unat num + 1"
proof -
  from assms have "unat num + unat (1 :: 32 word) < 2 ^ LENGTH(32)" by simp
  then have "unat (num + 1) = unat num + unat (1 :: 32 word)"
    by (simp only: unat_add_lem)
  then show ?thesis by simp
qed

lemma shift_and_store:
  assumes "p \<le> n" "n < length buf"
  defines "moved \<equiv> (if n - p \<noteq> 0
      then take (p + 1) buf @ take (n - p) (drop p buf) @ drop (p + 1 + (n - p)) buf else buf)"
  shows "length (moved[p := data]) = length buf"
    and "take (n + 1) (moved[p := data]) = take p buf @ data # take (n - p) (drop p buf)"
proof -
  show "length (moved[p := data]) = length buf"
    using assms(1,2) by (auto simp: moved_def)
  show "take (n + 1) (moved[p := data]) = take p buf @ data # take (n - p) (drop p buf)"
  proof (cases "p = n")
    case True
    then have "moved = buf" by (simp add: moved_def)
    with True assms(2) show ?thesis
      by (simp add: take_Suc_conv_app_nth)
  next
    case False
    with assms(1) have pn: "p < n" by simp
    then have pl: "p < length buf" using assms(2) by simp
    have m: "moved = take p buf @ buf ! p # take (n - p) (drop p buf) @ drop (n + 1) buf"
      using pn pl by (simp add: moved_def take_Suc_conv_app_nth)
    have e: "moved[p := data] = (take p buf @ data # take (n - p) (drop p buf)) @ drop (n + 1) buf"
      using pl by (simp add: m list_update_append)
    have l: "length (take p buf @ data # take (n - p) (drop p buf)) = n + 1"
      using pn pl assms(2) by simp
    show ?thesis
      unfolding e using l by (metis append_eq_conv_conj)
  qed
qed

lemma insert_keeps_order:
  assumes srt: "sorted_wrt (<) (take n buf)" and pn: "p \<le> n" and nl: "n \<le> length buf"
    and lo: "\<forall>k<p. buf ! k < data" and hi: "\<forall>k. p \<le> k \<and> k < n \<longrightarrow> data < buf ! k"
  shows "sorted_wrt (<) (take p buf @ data # take (n - p) (drop p buf))"
    and "set (take p buf @ data # take (n - p) (drop p buf)) = insert data (set (take n buf))"
proof -
  have split: "take n buf = take p buf @ take (n - p) (drop p buf)"
    using pn take_add[of p "n - p" buf] by simp
  have lo': "\<forall>x\<in>set (take p buf). x < data"
    using lo by (auto simp: in_set_conv_nth)
  have hi': "\<forall>x\<in>set (take (n - p) (drop p buf)). data < x"
  proof
    fix x assume "x \<in> set (take (n - p) (drop p buf))"
    then obtain k where k: "k < n - p" "k < length buf - p" "x = drop p buf ! k"
      by (auto simp: in_set_conv_nth)
    then have "x = buf ! (p + k)" by simp
    moreover have "p \<le> p + k \<and> p + k < n" using k by simp
    ultimately show "data < x" using hi by blast
  qed
  from srt have parts: "sorted_wrt (<) (take p buf)" "sorted_wrt (<) (take (n - p) (drop p buf))"
    "\<forall>x\<in>set (take p buf). \<forall>y\<in>set (take (n - p) (drop p buf)). x < y"
    by (simp_all add: split sorted_wrt_append)
  show "sorted_wrt (<) (take p buf @ data # take (n - p) (drop p buf))"
    using parts lo' hi' by (auto simp: sorted_wrt_append)
  show "set (take p buf @ data # take (n - p) (drop p buf)) = insert data (set (take n buf))"
    by (simp add: split)
qed

text \<open>
  C3. For a buffer of 320 slots whose first \<open>n < 320\<close> slots are strictly ascending, and
  every 64-bit value \<open>v\<close>: if \<open>v\<close> is among them, \<^verbatim>\<open>_explicit_data_insert\<close> returns
  false and changes neither buffer nor count; otherwise it returns true, the count becomes
  \<open>n + 1\<close>, and the first \<open>n + 1\<close> slots hold the old values and \<open>v\<close>, strictly ascending.
\<close>

theorem explicit_data_insert_keeps_ascending:
  assumes cap: "length buf = HLL_EXPLICIT_INT64_NUM_DOUBLE"
    and n: "unat num = n" "n < 320"
    and srt: "sorted_wrt (<) (take n buf)"
  shows "if v \<in> set (take n buf)
         then explicit_data_insert v (buf, num) = Some (False, buf, num)
         else (\<exists>buf'. explicit_data_insert v (buf, num) = Some (True, buf', num + 1)
                 \<and> unat (num + 1) = n + 1
                 \<and> length buf' = HLL_EXPLICIT_INT64_NUM_DOUBLE
                 \<and> set (take (n + 1) buf') = insert v (set (take n buf))
                 \<and> sorted_wrt (<) (take (n + 1) buf'))"
proof -
  have len: "length buf = 320"
    using cap by (simp add: HLL_EXPLICIT_INT64_NUM_DOUBLE_def HLL_EXPLICIT_INT64_NUM_def)
  have nl: "n \<le> length buf" "n < length buf" using n len by simp_all
  have si: "sint num = int n" using sint_small[of num] n by simp
  have nomin: "sint num \<noteq> - (2 ^ 31)" using si by simp
  note scan = explicit_data_scan_sorted[OF srt nl(1), of v]
  show ?thesis
  proof (cases "v \<in> set (take n buf)")
    case True
    with scan have "explicit_data_scan buf v (int n - 1) = Some Found" by blast
    with True nomin show ?thesis
      by (simp add: explicit_data_insert_def si)
  next
    case False
    with scan obtain p where p: "p \<le> n"
      "explicit_data_scan buf v (int n - 1) = Some (Insert_after (int p - 1))"
      "\<forall>k<p. buf ! k < v" "\<forall>k. p \<le> k \<and> k < n \<longrightarrow> v < buf ! k"
      by blast
    define moved where "moved \<equiv> (if n - p \<noteq> 0
      then take (p + 1) buf @ take (n - p) (drop p buf) @ drop (p + 1 + (n - p)) buf else buf)"
    have cnt: "unat (num - word_of_int (int p)) = n - p"
      using unat_num_minus[of p num] p(1) n(1) by simp
    have mv: "memmove_u64 buf (p + 1) p (n - p) =
        Some (take (p + 1) buf @ take (n - p) (drop p buf) @ drop (p + 1 + (n - p)) buf)"
      using p(1) nl(2) by (simp add: memmove_u64_def)
    have lm: "length (moved[p := v]) = length buf"
      and tk: "take (n + 1) (moved[p := v]) = take p buf @ v # take (n - p) (drop p buf)"
      using shift_and_store[OF p(1) nl(2), of v] by (simp_all add: moved_def)
    have pl: "p < length moved" using lm p(1) nl(2) by simp
    have cnt': "unat (num - word_of_nat p) = n - p"
      using cnt by simp
    have pb: "p < length buf" using p(1) nl(2) by simp
    have res: "explicit_data_insert v (buf, num) = Some (True, moved[p := v], num + 1)"
    proof (cases "p = n")
      case True
      then have "moved = buf" by (simp add: moved_def)
      with True nomin p(2) pb cnt' show ?thesis
        by (simp add: explicit_data_insert_def si Let_def)
    next
      case False
      with p(1) have lt: "p < n" by simp
      then have "memmove_u64 buf (Suc p) p (n - p) = Some moved"
        using mv by (simp add: moved_def)
      with lt nomin p(2) pl pb cnt' show ?thesis
        by (simp add: explicit_data_insert_def si Let_def)
    qed
    have c1: "unat (num + 1) = n + 1" using unat_num_Suc[of num] n by simp
    have c2: "length (moved[p := v]) = HLL_EXPLICIT_INT64_NUM_DOUBLE"
      using lm cap by simp
    have c3: "set (take (n + 1) (moved[p := v])) = insert v (set (take n buf))"
      and c4: "sorted_wrt (<) (take (n + 1) (moved[p := v]))"
      using insert_keeps_order[OF srt p(1) nl(1) p(3) p(4)] by (simp_all only: tk)
    have "\<exists>buf'. explicit_data_insert v (buf, num) = Some (True, buf', num + 1)
                 \<and> unat (num + 1) = n + 1
                 \<and> length buf' = HLL_EXPLICIT_INT64_NUM_DOUBLE
                 \<and> set (take (n + 1) buf') = insert v (set (take n buf))
                 \<and> sorted_wrt (<) (take (n + 1) buf')"
      by (rule exI[of _ "moved[p := v]"]) (intro conjI res c1 c2 c3 c4)
    with False show ?thesis by (simp only: if_False)
  qed
qed


theorem explicit_data_insert_keeps_ascending_witness:
  "length ([1, 3, 7, 9] @ replicate 316 (0 :: 64 word)) = HLL_EXPLICIT_INT64_NUM_DOUBLE
   \<and> unat (4 :: 32 word) = 4 \<and> (4 :: nat) < 320
   \<and> sorted_wrt (<) (take 4 ([1, 3, 7, 9] @ replicate 316 (0 :: 64 word)))
   \<and> (\<exists>buf'. explicit_data_insert 5 ([1, 3, 7, 9] @ replicate 316 0, 4) = Some (True, buf', 4 + 1)
         \<and> set (take (4 + 1) buf') = insert 5 (set (take 4 ([1, 3, 7, 9] @ replicate 316 0)))
         \<and> sorted_wrt (<) (take (4 + 1) buf'))"
proof -
  have h1: "length ([1, 3, 7, 9] @ replicate 316 (0 :: 64 word)) = HLL_EXPLICIT_INT64_NUM_DOUBLE"
    by (simp add: HLL_EXPLICIT_INT64_NUM_DOUBLE_def HLL_EXPLICIT_INT64_NUM_def)
  have h2: "unat (4 :: 32 word) = 4" by simp
  have h3: "(4 :: nat) < 320" by simp
  have h4: "sorted_wrt (<) (take 4 ([1, 3, 7, 9] @ replicate 316 (0 :: 64 word)))" by simp
  have h5: "(5 :: 64 word) \<notin> set (take 4 ([1, 3, 7, 9] @ replicate 316 (0 :: 64 word)))" by simp
  from explicit_data_insert_keeps_ascending [OF h1 h2 h3 h4, of 5] h5
  have "\<exists>buf'. explicit_data_insert 5 ([1, 3, 7, 9] @ replicate 316 0, 4) = Some (True, buf', 4 + 1)
         \<and> unat ((4 :: 32 word) + 1) = 4 + 1
         \<and> length buf' = HLL_EXPLICIT_INT64_NUM_DOUBLE
         \<and> set (take (4 + 1) buf') = insert 5 (set (take 4 ([1, 3, 7, 9] @ replicate 316 0)))
         \<and> sorted_wrt (<) (take (4 + 1) buf')"
    by (simp only: if_False)
  then obtain buf' where
    "explicit_data_insert 5 ([1, 3, 7, 9] @ replicate 316 0, 4) = Some (True, buf', 4 + 1)"
    "set (take (4 + 1) buf') = insert 5 (set (take 4 ([1, 3, 7, 9] @ replicate 316 0)))"
    "sorted_wrt (<) (take (4 + 1) buf')"
    by (elim exE conjE)
  then have "\<exists>buf'. explicit_data_insert 5 ([1, 3, 7, 9] @ replicate 316 0, 4) = Some (True, buf', 4 + 1)
         \<and> set (take (4 + 1) buf') = insert 5 (set (take 4 ([1, 3, 7, 9] @ replicate 316 0)))
         \<and> sorted_wrt (<) (take (4 + 1) buf')"
    by (intro exI[of _ buf'] conjI)
  with h1 h2 h3 h4 show ?thesis by (intro conjI)
qed
section \<open>Verification of the codec\<close>

lemma is_valid_Cons:
  "is_valid (tag # payload) =
     (tag = 0
      \<or> (tag = 1 \<and> payload \<noteq> [] \<and> length payload = 1 + 8 * unat (payload ! 0))
      \<or> (tag = 2 \<and> 4 \<le> length payload \<and> int (length payload) = 4 + 3 * sparse_count payload)
      \<or> (tag = 3 \<and> HLL_REGISTERS_COUNT \<le> length payload))"
proof -
  consider "tag = 0" | "tag = 1" | "tag = 2" | "tag = 3" | "tag \<noteq> 0" "tag \<noteq> 1" "tag \<noteq> 2" "tag \<noteq> 3"
    by blast
  then show ?thesis
  proof cases
    case 1
    then show ?thesis by (simp add: is_valid_def)
  next
    case 2
    then show ?thesis by (cases payload) (simp_all add: is_valid_def)
  next
    case 3
    have "(4 \<le> length payload \<and> int (length payload - 4) = 3 * sparse_count payload)
        = (4 \<le> length payload \<and> int (length payload) = 4 + 3 * sparse_count payload)"
      by (auto simp: of_nat_diff)
    with 3 show ?thesis by (simp add: is_valid_def)
  next
    case 4
    then show ?thesis by (simp add: is_valid_def)
  next
    case 5
    then show ?thesis by (simp add: is_valid_def)
  qed
qed

text \<open>
  C5. \<^verbatim>\<open>is_valid\<close> holds of a buffer exactly when byte 0 is 0, 1, 2 or 3 and the length
  fits the tag: at least 1 for tag 0; at least 2 and equal to \<open>2 + 8 n\<close> for tag 1, \<open>n\<close>
  being byte 1; at least 5 and equal to \<open>5 + 3 k\<close> for tag 2, \<open>k\<close> being the decoded 32-bit
  count; at least 16385 for tag 3.
\<close>

theorem is_valid_iff_tag_and_length:
  "is_valid bs \<longleftrightarrow>
     (bs \<noteq> []
      \<and> ((bs ! 0 = 0 \<and> 1 \<le> length bs)
         \<or> (bs ! 0 = 1 \<and> 2 \<le> length bs \<and> length bs = 2 + 8 * unat (bs ! 1))
         \<or> (bs ! 0 = 2 \<and> 5 \<le> length bs \<and> int (length bs) = 5 + 3 * sparse_count (tl bs))
         \<or> (bs ! 0 = 3 \<and> 16385 \<le> length bs)))"
proof (cases bs)
  case Nil
  then show ?thesis by (simp add: is_valid_def)
next
  case (Cons tag payload)
  have l: "length (tag # payload) = Suc (length payload)" "(tag # payload) ! 0 = tag"
    "(tag # payload) ! 1 = payload ! 0" "tl (tag # payload) = payload" "(tag # payload \<noteq> []) = True"
    by simp_all
  have h: "HLL_REGISTERS_COUNT = 16384" by (simp add: HLL_REGISTERS_COUNT_def)
  have e: "(payload \<noteq> [] \<and> length payload = 1 + 8 * unat (payload ! 0))
      = (2 \<le> Suc (length payload) \<and> Suc (length payload) = 2 + 8 * unat (payload ! 0))"
    by (cases payload) simp_all
  have f: "(16384 \<le> length payload) = (16385 \<le> Suc (length payload))" by arith
  have g: "(4 \<le> length payload \<and> int (length payload) = 4 + 3 * sparse_count payload)
      = (5 \<le> Suc (length payload) \<and> int (Suc (length payload)) = 5 + 3 * sparse_count payload)"
    by (simp only: of_nat_Suc) arith
  have o: "(1 \<le> Suc (length payload)) = True" by simp
  show ?thesis
    unfolding Cons is_valid_Cons l h e f g o by (simp only: simp_thms)
qed

lemma tag_above_3: "(3 < unat (tag :: 8 word)) = (tag \<noteq> 0 \<and> tag \<noteq> 1 \<and> tag \<noteq> 2 \<and> tag \<noteq> 3)"
proof -
  have "(tag = 0) = (unat tag = 0)" "(tag = 1) = (unat tag = 1)"
    "(tag = 2) = (unat tag = 2)" "(tag = 3) = (unat tag = 3)"
    by (simp_all add: word_unat_eq_iff)
  then show ?thesis by arith
qed

lemma decode_sparse_fails_iff:
  "length rest = 3 * k \<Longrightarrow>
   isl (decode_sparse rest)
     = (\<exists>i<k. HLL_REGISTERS_COUNT \<le> unat (rest ! (3 * i)) + 256 * unat (rest ! (1 + 3 * i)))"
proof (induction k arbitrary: rest)
  case 0
  then show ?case by simp
next
  case (Suc k)
  then obtain lo hi v rest' where r: "rest = lo # hi # v # rest'" "length rest' = 3 * k"
    by (cases rest rule: decode_sparse.cases) auto
  let ?P = "\<lambda>xs i. HLL_REGISTERS_COUNT \<le> unat (xs ! (3 * i)) + 256 * unat (xs ! (1 + 3 * i))"
  have shift: "?P rest (Suc i) = ?P rest' i" for i
    by (simp add: r(1))
  have ex: "(\<exists>i<Suc k. ?P rest i) = (?P rest 0 \<or> (\<exists>i<k. ?P rest' i))"
  proof
    assume "\<exists>i<Suc k. ?P rest i"
    then obtain i where i: "i < Suc k" "?P rest i" by blast
    show "?P rest 0 \<or> (\<exists>i<k. ?P rest' i)"
    proof (cases i)
      case 0
      with i show ?thesis by simp
    next
      case (Suc j)
      with i shift[of j] have "j < k" "?P rest' j" by simp_all
      then show ?thesis by blast
    qed
  next
    assume "?P rest 0 \<or> (\<exists>i<k. ?P rest' i)"
    then show "\<exists>i<Suc k. ?P rest i"
    proof
      assume "?P rest 0"
      then show ?thesis by (intro exI[of _ 0]) simp
    next
      assume "\<exists>i<k. ?P rest' i"
      then obtain j where "j < k" "?P rest' j" by blast
      with shift[of j] show ?thesis by (intro exI[of _ "Suc j"]) simp
    qed
  qed
  have "isl (decode_sparse rest) = (?P rest 0 \<or> isl (decode_sparse rest'))"
    by (simp add: r(1) Let_def split: sum.splits)
  also have "\<dots> = (?P rest 0 \<or> (\<exists>i<k. ?P rest' i))"
    using Suc.IH[OF r(2)] by simp
  finally show ?case using ex by simp
qed


lemma from_bytes_sparse_fails_iff:
  fixes payload :: "8 word list"
  defines "bs \<equiv> 2 # payload"
  shows "isl (from_bytes bs) = (length_mismatch bs \<or> sparse_index_out_of_range bs)"
proof (cases "4 \<le> length payload \<and> int (length payload - 4) = 3 * sparse_count payload")
  case False
  then have m: "length bs < 5 \<or> int (length bs) \<noteq> 5 + 3 * sparse_count (tl bs)"
    unfolding bs_def by (auto simp: of_nat_diff)
  have "isl (from_bytes bs)" using False by (auto simp: bs_def from_bytes_def)
  moreover have "length_mismatch bs" using m by (simp add: length_mismatch_def bs_def)
  ultimately show ?thesis by simp
next
  case True
  define k where "k = (length payload - 4) div 3"
  have len: "length (drop 4 payload) = 3 * k"
  proof -
    from True have "int (length payload - 4) = 3 * sparse_count payload" by simp
    then have "3 dvd int (length payload - 4)" by simp
    then have "3 dvd (length payload - 4)" by presburger
    then show ?thesis by (simp add: k_def)
  qed
  have ok: "5 \<le> length bs" "int (length bs) = 5 + 3 * sparse_count (tl bs)"
    using True unfolding bs_def by (auto simp: of_nat_diff)
  then have nm: "\<not> length_mismatch bs"
    by (simp add: length_mismatch_def bs_def)
  have kk: "(length bs - 5) div 3 = k" by (simp add: bs_def k_def)
  have idx: "sparse_index bs i
      = unat (drop 4 payload ! (3 * i)) + 256 * unat (drop 4 payload ! (1 + 3 * i))"
    if "i < k" for i
  proof -
    from that len have "1 + 3 * i < length (drop 4 payload)" by simp
    then have b: "4 + (1 + 3 * i) < length payload" "4 + 3 * i < length payload" by simp_all
    have "bs ! (5 + 3 * i) = payload ! (4 + 3 * i)" "bs ! (6 + 3 * i) = payload ! (5 + 3 * i)"
      by (simp_all add: bs_def numeral_eq_Suc)
    then show ?thesis using b by (simp add: sparse_index_def add.assoc[symmetric])
  qed
  have "isl (from_bytes bs) = isl (decode_sparse (drop 4 payload))"
    using True by (simp add: bs_def from_bytes_def split: sum.splits)
  also have "\<dots> = (\<exists>i<k. HLL_REGISTERS_COUNT
        \<le> unat (drop 4 payload ! (3 * i)) + 256 * unat (drop 4 payload ! (1 + 3 * i)))"
    using len by (rule decode_sparse_fails_iff)
  also have "\<dots> = (\<exists>i<k. HLL_REGISTERS_COUNT \<le> sparse_index bs i)"
    using idx by auto
  also have "\<dots> = sparse_index_out_of_range bs"
    using ok kk by (simp add: sparse_index_out_of_range_def bs_def)
  finally show ?thesis using nm by simp
qed

lemma from_bytes_fails_iff:
  "isl (from_bytes bs)
     = (tag_unknown bs \<or> length_mismatch bs \<or> sparse_index_out_of_range bs)"
proof (cases bs)
  case Nil
  then show ?thesis by (simp add: from_bytes_def tag_unknown_def)
next
  case (Cons tag payload)
  have l: "Suc (length payload) < 16385 \<longleftrightarrow> length payload < 16384" by arith
  consider "tag = 0" | "tag = 1" | "tag = 2" | "tag = 3" | "tag \<noteq> 0" "tag \<noteq> 1" "tag \<noteq> 2" "tag \<noteq> 3"
    by blast
  then show ?thesis
  proof cases
    case 1
    with Cons show ?thesis
      by (simp add: from_bytes_def tag_unknown_def length_mismatch_def sparse_index_out_of_range_def)
  next
    case 2
    with Cons show ?thesis
      by (cases payload)
         (auto simp: from_bytes_def tag_unknown_def length_mismatch_def
            sparse_index_out_of_range_def)
  next
    case 3
    have "\<not> tag_unknown bs" using 3 Cons by (simp add: tag_unknown_def)
    with from_bytes_sparse_fails_iff[of payload] 3 Cons show ?thesis by simp
  next
    case 4
    with Cons l show ?thesis
      by (simp add: from_bytes_def tag_unknown_def length_mismatch_def
          sparse_index_out_of_range_def HLL_REGISTERS_COUNT_def not_le)
  next
    case 5
    then have "3 < unat tag" by (simp add: tag_above_3)
    with 5 Cons show ?thesis by (simp add: from_bytes_def tag_unknown_def)
  qed
qed

text \<open>
  C4. For every buffer there is one decoded sketch such that, whatever the target held
  before: if the tag is unknown, a declared length does not match the bytes that remain, or
  a sparse record carries an index of 16384 or more, \<^verbatim>\<open>deserialize\<close> fails with
  \<open>InvalidEncoding\<close> and the target is as it was; otherwise it succeeds and the target is
  that decoded sketch.
\<close>

theorem deserialize_fails_exactly_on_invalid_encoding:
  "\<exists>decoded. \<forall>target.
     deserialize bs target
       = (if tag_unknown bs \<or> length_mismatch bs \<or> sparse_index_out_of_range bs
          then (Inl InvalidEncoding, target)
          else (Inr (), decoded))"
proof (cases "from_bytes bs")
  case (Inl e)
  then have "isl (from_bytes bs)" by simp
  then have bad: "tag_unknown bs \<or> length_mismatch bs \<or> sparse_index_out_of_range bs"
    using from_bytes_fails_iff[of bs] by simp
  have "e = InvalidEncoding" by (cases e) simp
  with Inl bad show ?thesis by (simp add: deserialize_def)
next
  case (Inr decoded)
  then have "\<not> isl (from_bytes bs)" by simp
  then have ok: "\<not> (tag_unknown bs \<or> length_mismatch bs \<or> sparse_index_out_of_range bs)"
    using from_bytes_fails_iff[of bs] by simp
  show ?thesis
    using Inr ok
    by (intro exI[of _ decoded]) (simp add: deserialize_def)
qed

section \<open>Verification of the object's operations\<close>

text \<open>
  C6. The sketch \<^verbatim>\<open>HyperLogLog(hash_value)\<close> builds owns an array of 320 values of 8 bytes,
  2560 bytes, and no registers. \<^verbatim>\<open>memory_consumed\<close> adds 320 to the size of the object for
  it, the number of slots, not 2560.
\<close>

theorem memory_consumed_counts_slots_not_bytes:
  "\<exists>s1 t buf.
      construct_from_hash 1 hash_value 10 (replicate 320 0)
        \<lparr>objects = Map.empty, u64_arrays = Map.empty, u8_arrays = Map.empty\<rparr> = Some s1
    \<and> objects s1 1 = Some t
    \<and> explicit_data t = Some 10 \<and> registers t = None
    \<and> u64_arrays s1 10 = Some buf \<and> length buf * 8 = 2560
    \<and> memory_consumed sizeof_this t = sizeof_this + 320
    \<and> memory_consumed sizeof_this t \<noteq> sizeof_this + 2560"
  by (simp add: construct_from_hash_def new_u64_def HyperLogLog_init_def Let_def
      memory_consumed_def HLL_EXPLICIT_INT64_NUM_DOUBLE_def HLL_EXPLICIT_INT64_NUM_def)

text \<open>The invariant holds of the sketches the two plain constructors build.\<close>

lemma sketch_inv_init: "sketch_inv s HyperLogLog_init"
  by (simp add: sketch_inv_def HyperLogLog_init_def)

lemma construct_from_hash_inv:
  assumes "length init = HLL_EXPLICIT_INT64_NUM_DOUBLE"
  shows "\<exists>s1 t. construct_from_hash this hash_value p init s = Some s1
           \<and> objects s1 this = Some t \<and> sketch_inv s1 t
           \<and> explicit_payload s1 t = Some [hash_value]"
  using assms
  by (cases init)
     (simp_all add: construct_from_hash_def new_u64_def HyperLogLog_init_def Let_def
        sketch_inv_def owns_u64_def explicit_payload_def
        HLL_EXPLICIT_INT64_NUM_DOUBLE_def HLL_EXPLICIT_INT64_NUM_def)

lemma move_switch_inv:
  assumes inv: "sketch_inv s oth"
    and t0: "explicit_data t0 = None" "registers t0 = None" "explicit_data_num t0 = 0"
      "hll_type t0 = hll_type oth"
  shows "move_switch t0 oth = (oth, HyperLogLog_init)"
  using assms
  by (cases t0; cases oth; cases "hll_type oth")
     (auto simp: move_switch_def move_registers_block_def sketch_inv_def HyperLogLog_init_def)

lemma release_for_assign_result:
  assumes ok: "pointers_valid s t"
  shows "release_for_assign t s = Some
     (t\<lparr>registers := None, explicit_data := None, explicit_data_num := 0\<rparr>,
      without_arrays_of s t)"
  using ok
  by (cases s; cases t)
     (auto simp: release_for_assign_def without_arrays_of_def pointers_valid_def delete_u8_def delete_u64_def
           split: option.splits)


lemma payload_after_release:
  assumes dj: "disjoint_payload t oth"
  shows "explicit_payload ((without_arrays_of s t)\<lparr>objects := f\<rparr>) oth = explicit_payload s oth"
    and "registers_payload ((without_arrays_of s t)\<lparr>objects := f\<rparr>) oth = registers_payload s oth"
    and "sketch_inv (without_arrays_of s t) oth = sketch_inv s oth"
  using dj
  by (cases s; auto simp: without_arrays_of_def disjoint_payload_def explicit_payload_def registers_payload_def
        sketch_inv_def owns_u64_def owns_u8_def
      split: option.splits HllDataType.splits)+

lemma objects_without_arrays: "objects (without_arrays_of s t) = objects s"
  by (simp add: without_arrays_of_def)

lemma payload_objects_update:
  "explicit_payload (s\<lparr>objects := f\<rparr>) oth = explicit_payload s oth"
  "registers_payload (s\<lparr>objects := f\<rparr>) oth = registers_payload s oth"
  by (simp_all add: explicit_payload_def registers_payload_def split: option.splits)

lemma move_construct_result:
  assumes other: "objects s other = Some oth" and inv: "sketch_inv s oth"
    and new: "dst \<noteq> other"
  shows "\<exists>s1.
       move_construct dst other s = Some s1
     \<and> objects s1 other = Some HyperLogLog_init
     \<and> objects s1 dst = Some oth
     \<and> explicit_payload s1 oth = explicit_payload s oth
     \<and> registers_payload s1 oth = registers_payload s oth"
proof -
  let ?s1 = "s\<lparr>objects := (objects s)(other \<mapsto> HyperLogLog_init, dst \<mapsto> oth)\<rparr>"
  have sw1: "move_switch (HyperLogLog_init\<lparr>hll_type := hll_type oth\<rparr>) oth = (oth, HyperLogLog_init)"
    by (rule move_switch_inv[OF inv]) (simp_all add: HyperLogLog_init_def)
  have c: "move_construct dst other s = Some ?s1"
    using other sw1 by (simp add: move_construct_def)
  have o1: "objects ?s1 other = Some HyperLogLog_init" "objects ?s1 dst = Some oth"
    using new by simp_all
  have p1: "explicit_payload ?s1 oth = explicit_payload s oth"
    "registers_payload ?s1 oth = registers_payload s oth"
    by (rule payload_objects_update)+
  show ?thesis
    by (rule exI[of _ ?s1]) (intro conjI c o1 p1)
qed

lemma move_assign_result:
  assumes other: "objects s other = Some oth" and inv: "sketch_inv s oth"
    and neq: "this \<noteq> other"
    and dest: "objects s this = Some t" "pointers_valid s t" "disjoint_payload t oth"
  shows "\<exists>s2.
       move_assign this other s = Some s2
     \<and> objects s2 other = Some HyperLogLog_init
     \<and> objects s2 this = Some oth
     \<and> explicit_payload s2 oth = explicit_payload s oth
     \<and> registers_payload s2 oth = registers_payload s oth"
proof -
  let ?f = "(objects s)(other \<mapsto> HyperLogLog_init, this \<mapsto> oth)"
  let ?s2 = "(without_arrays_of s t)\<lparr>objects := ?f\<rparr>"
  have sw2: "move_switch (t\<lparr>registers := None, explicit_data := None, explicit_data_num := 0,
        hll_type := hll_type oth\<rparr>) oth = (oth, HyperLogLog_init)"
    by (rule move_switch_inv[OF inv]) simp_all
  have a: "move_assign this other s = Some ?s2"
    using other dest(1) neq sw2 release_for_assign_result[OF dest(2)]
    by (simp add: move_assign_def objects_without_arrays)
  have o2: "objects ?s2 other = Some HyperLogLog_init" "objects ?s2 this = Some oth"
    using neq by (simp_all add: without_arrays_of_def)
  have p2: "explicit_payload ?s2 oth = explicit_payload s oth"
    "registers_payload ?s2 oth = registers_payload s oth"
    by (rule payload_after_release[OF dest(3)])+
  show ?thesis
    by (rule exI[of _ ?s2]) (intro conjI a o2 p2)
qed

text \<open>
  C7, as amended. Let \<open>oth\<close> be a sketch of any kind, in the state its kind prescribes.
  Move-constructing a new sketch from it, at any address \<open>dst\<close> other than its own and
  whatever else the store holds, returns; so does move-assigning it to a different sketch
  at \<open>this\<close> that shares no array with it. Afterwards the source is empty (kind
  \<^verbatim>\<open>HLL_DATA_EMPTY\<close>, both pointers null, count 0) and the destination holds the source's
  former kind, count and pointers, with the array contents as they were.
\<close>

theorem move_leaves_source_empty:
  assumes other: "objects s other = Some oth" and inv: "sketch_inv s oth"
  shows "(dst \<noteq> other \<longrightarrow>
            (\<exists>s1.
                 move_construct dst other s = Some s1
               \<and> objects s1 other = Some HyperLogLog_init
               \<and> objects s1 dst = Some oth
               \<and> explicit_payload s1 oth = explicit_payload s oth
               \<and> registers_payload s1 oth = registers_payload s oth))
       \<and> (this \<noteq> other \<and> objects s this = Some t \<and> pointers_valid s t
            \<and> disjoint_payload t oth \<longrightarrow>
            (\<exists>s2.
                 move_assign this other s = Some s2
               \<and> objects s2 other = Some HyperLogLog_init
               \<and> objects s2 this = Some oth
               \<and> explicit_payload s2 oth = explicit_payload s oth
               \<and> registers_payload s2 oth = registers_payload s oth))"
proof (intro conjI impI)
  assume "dst \<noteq> other"
  with other inv show "\<exists>s1.
                 move_construct dst other s = Some s1
               \<and> objects s1 other = Some HyperLogLog_init
               \<and> objects s1 dst = Some oth
               \<and> explicit_payload s1 oth = explicit_payload s oth
               \<and> registers_payload s1 oth = registers_payload s oth"
    by (rule move_construct_result)
next
  assume h: "this \<noteq> other \<and> objects s this = Some t \<and> pointers_valid s t
            \<and> disjoint_payload t oth"
  then have "this \<noteq> other" "objects s this = Some t" "pointers_valid s t"
    "disjoint_payload t oth" by simp_all
  with other inv show "\<exists>s2.
                 move_assign this other s = Some s2
               \<and> objects s2 other = Some HyperLogLog_init
               \<and> objects s2 this = Some oth
               \<and> explicit_payload s2 oth = explicit_payload s oth
               \<and> registers_payload s2 oth = registers_payload s oth"
    by (rule move_assign_result)
qed


lemma example_facts:
  "objects example_store 1 = Some example_explicit"
  "objects example_store 2 = Some example_full"
  "sketch_inv example_store example_explicit"
  "sketch_inv example_store example_full"
  "pointers_valid example_store example_explicit"
  "pointers_valid example_store example_full"
  "disjoint_payload example_full example_explicit"
  "disjoint_payload example_explicit example_full"
  by (simp_all add: example_store_def example_explicit_def example_full_def sketch_inv_def
      owns_u64_def owns_u8_def pointers_valid_def disjoint_payload_def
      HLL_EXPLICIT_INT64_NUM_DOUBLE_def HLL_EXPLICIT_INT64_NUM_def HLL_REGISTERS_COUNT_def)

text \<open>
  The store that holds nothing but the explicit sketch \<^verbatim>\<open>HyperLogLog(9)\<close> has just built at
  address 1.
\<close>

lemma lone_facts:
  "objects lone_store 1 = Some lone_explicit"
  "sketch_inv lone_store lone_explicit"
  "u64_arrays lone_store 30 = None"
  "u8_arrays lone_store 30 = None"
  by (simp_all add: lone_store_def lone_explicit_def sketch_inv_def owns_u64_def
      HLL_EXPLICIT_INT64_NUM_DOUBLE_def HLL_EXPLICIT_INT64_NUM_def)

theorem move_leaves_source_empty_witness:
  "objects example_store 1 = Some example_explicit \<and> sketch_inv example_store example_explicit
   \<and> (3 :: addr) \<noteq> 1
   \<and> (\<exists>s1.
         move_construct 3 1 example_store = Some s1
       \<and> objects s1 1 = Some HyperLogLog_init
       \<and> objects s1 3 = Some example_explicit
       \<and> explicit_payload s1 example_explicit = explicit_payload example_store example_explicit
       \<and> registers_payload s1 example_explicit = registers_payload example_store example_explicit)
   \<and> (2 :: addr) \<noteq> 1
   \<and> objects example_store 2 = Some example_full
   \<and> pointers_valid example_store example_full
   \<and> disjoint_payload example_full example_explicit
   \<and> (\<exists>s2.
         move_assign 2 1 example_store = Some s2
       \<and> objects s2 1 = Some HyperLogLog_init
       \<and> objects s2 2 = Some example_explicit
       \<and> explicit_payload s2 example_explicit = explicit_payload example_store example_explicit
       \<and> registers_payload s2 example_explicit = registers_payload example_store example_explicit)
   \<and> objects lone_store 1 = Some lone_explicit \<and> sketch_inv lone_store lone_explicit
   \<and> (\<exists>s1.
         move_construct 3 1 lone_store = Some s1
       \<and> objects s1 1 = Some HyperLogLog_init
       \<and> objects s1 3 = Some lone_explicit
       \<and> explicit_payload s1 lone_explicit = explicit_payload lone_store lone_explicit
       \<and> registers_payload s1 lone_explicit = registers_payload lone_store lone_explicit)"
proof -
  have d: "(3 :: addr) \<noteq> 1" "(2 :: addr) \<noteq> 1" by simp_all
  note r = move_leaves_source_empty [OF example_facts(1) example_facts(3),
      of 3 2 example_full]
  note c = r [THEN conjunct1, rule_format, OF d(1)]
  have h: "(2 :: addr) \<noteq> 1 \<and> objects example_store 2 = Some example_full
      \<and> pointers_valid example_store example_full
      \<and> disjoint_payload example_full example_explicit"
    by (intro conjI d(2) example_facts(2,6,7))
  note a = r [THEN conjunct2, rule_format, OF h]
  note l = move_leaves_source_empty [OF lone_facts(1) lone_facts(2), of 3 2 example_full,
      THEN conjunct1, rule_format, OF d(1)]
  show ?thesis
    by (intro conjI example_facts(1,2,3,6,7) lone_facts(1,2) d c a l)
qed

text \<open>
  Move-assigning a sketch to itself is outside C7 as amended: the operator's guard
  \<^verbatim>\<open>this != &other\<close> skips the transfer, so the explicit sketch at address 1 is still
  explicit afterwards, with its array and its count of 2, and not empty.
\<close>

theorem move_leaves_source_empty_counterexample:
  "move_assign 1 1 example_store = Some example_store
   \<and> objects example_store 1 = Some example_explicit
   \<and> hll_type example_explicit = HLL_DATA_EXPLICIT
   \<and> explicit_data example_explicit = Some 10
   \<and> explicit_data_num example_explicit = 2
   \<and> example_explicit \<noteq> HyperLogLog_init"
  by (simp add: move_assign_def example_store_def example_explicit_def HyperLogLog_init_def)
lemma copy_registers_block_result:
  assumes kind: "hll_type oth = HLL_DATA_SPARSE \<or> hll_type oth = HLL_DATA_FULL"
    and inv: "sketch_inv s oth"
    and fresh: "u8_arrays s p = None"
    and init: "length init8 = HLL_REGISTERS_COUNT"
    and t0: "explicit_data t0 = None" "registers t0 = None" "explicit_data_num t0 = 0"
      "hll_type t0 = hll_type oth"
  shows "\<exists>t1 s1. copy_registers_block t0 oth p init8 s = Some (t1, s1)
     \<and> objects s1 = objects s
     \<and> hll_type t1 = hll_type oth
     \<and> explicit_payload s1 t1 = explicit_payload s oth
     \<and> registers_payload s1 t1 = registers_payload s oth
     \<and> sketch_inv s1 t1 \<and> disjoint_payload t1 oth
     \<and> explicit_payload s1 oth = explicit_payload s oth
     \<and> registers_payload s1 oth = registers_payload s oth"
proof -
  from kind inv obtain a regs where a: "registers oth = Some a" "u8_arrays s a = Some regs"
    "length regs = HLL_REGISTERS_COUNT" "explicit_data oth = None" "explicit_data_num oth = 0"
    by (auto simp: sketch_inv_def owns_u8_def split: option.splits)
  from a fresh have pa: "p \<noteq> a" by auto
  let ?t1 = "t0\<lparr>registers := Some p\<rparr>"
  let ?s1 = "s\<lparr>u8_arrays := (u8_arrays s)(p \<mapsto> regs)\<rparr>"
  have r: "copy_registers_block t0 oth p init8 s = Some (?t1, ?s1)"
    using a pa init
    by (simp add: copy_registers_block_def Let_def new_u8_def memcpy_u8_def)
  have "explicit_payload ?s1 ?t1 = explicit_payload s oth"
    using a t0 by (simp add: explicit_payload_def)
  moreover have "registers_payload ?s1 ?t1 = registers_payload s oth"
    using a by (simp add: registers_payload_def)
  moreover have "sketch_inv ?s1 ?t1"
    using kind t0 a by (auto simp: sketch_inv_def owns_u8_def)
  moreover have "disjoint_payload ?t1 oth"
    using a pa t0 by (simp add: disjoint_payload_def)
  moreover have "explicit_payload ?s1 oth = explicit_payload s oth"
    using a by (simp add: explicit_payload_def)
  moreover have "registers_payload ?s1 oth = registers_payload s oth"
    using a pa by (simp add: registers_payload_def)
  moreover have "hll_type ?t1 = hll_type oth" "objects ?s1 = objects s"
    using t0 by simp_all
  ultimately show ?thesis using r
    by (intro exI[of _ ?t1] exI[of _ ?s1] conjI)
qed

lemma copy_switch_result:
  assumes inv: "sketch_inv s oth"
    and fresh: "u64_arrays s p = None" "u8_arrays s p = None"
    and init: "length init64 = HLL_EXPLICIT_INT64_NUM_DOUBLE" "length init8 = HLL_REGISTERS_COUNT"
    and t0: "explicit_data t0 = None" "registers t0 = None" "explicit_data_num t0 = 0"
      "hll_type t0 = hll_type oth"
  shows "\<exists>t1 s1. copy_switch t0 oth p init64 init8 s = Some (t1, s1)
     \<and> objects s1 = objects s
     \<and> hll_type t1 = hll_type oth
     \<and> explicit_payload s1 t1 = explicit_payload s oth
     \<and> registers_payload s1 t1 = registers_payload s oth
     \<and> sketch_inv s1 t1 \<and> disjoint_payload t1 oth
     \<and> explicit_payload s1 oth = explicit_payload s oth
     \<and> registers_payload s1 oth = registers_payload s oth"
proof (cases "hll_type oth")
  case HLL_DATA_EMPTY
  with inv t0 show ?thesis
    by (cases t0; cases oth)
       (auto simp: copy_switch_def sketch_inv_def disjoint_payload_def
          explicit_payload_def registers_payload_def)
next
  case HLL_DATA_EXPLICIT
  with inv obtain a buf where a: "explicit_data oth = Some a" "u64_arrays s a = Some buf"
    "length buf = HLL_EXPLICIT_INT64_NUM_DOUBLE" "registers oth = None"
    "unat (explicit_data_num oth) \<le> HLL_EXPLICIT_INT64_NUM_DOUBLE"
    by (auto simp: sketch_inv_def owns_u64_def split: option.splits)
  from a fresh have pa: "p \<noteq> a" by auto
  let ?n = "unat (explicit_data_num oth)"
  let ?t1 = "t0\<lparr>explicit_data_num := explicit_data_num oth, explicit_data := Some p\<rparr>"
  let ?s1 = "s\<lparr>u64_arrays := (u64_arrays s)(p \<mapsto> take ?n buf @ drop ?n init64)\<rparr>"
  have r: "copy_switch t0 oth p init64 init8 s = Some (?t1, ?s1)"
    using HLL_DATA_EXPLICIT a pa init
    by (simp add: copy_switch_def Let_def new_u64_def memcpy_u64_def)
  have "explicit_payload ?s1 ?t1 = explicit_payload s oth"
    using a by (simp add: explicit_payload_def)
  moreover have "registers_payload ?s1 ?t1 = registers_payload s oth"
    using a t0 by (simp add: registers_payload_def)
  moreover have "sketch_inv ?s1 ?t1"
    using HLL_DATA_EXPLICIT t0 a init by (simp add: sketch_inv_def owns_u64_def)
  moreover have "disjoint_payload ?t1 oth"
    using a pa t0 by (simp add: disjoint_payload_def)
  moreover have "explicit_payload ?s1 oth = explicit_payload s oth"
    using a pa by (simp add: explicit_payload_def)
  moreover have "registers_payload ?s1 oth = registers_payload s oth"
    using a by (simp add: registers_payload_def)
  moreover have "hll_type ?t1 = hll_type oth" "objects ?s1 = objects s"
    using t0 by simp_all
  ultimately show ?thesis using r
    by (intro exI[of _ ?t1] exI[of _ ?s1] conjI)
next
  case HLL_DATA_SPARSE
  then have "copy_switch t0 oth p init64 init8 s = copy_registers_block t0 oth p init8 s"
    by (simp add: copy_switch_def)
  with copy_registers_block_result[OF _ inv fresh(2) init(2) t0] HLL_DATA_SPARSE
  show ?thesis by simp
next
  case HLL_DATA_FULL
  then have "copy_switch t0 oth p init64 init8 s = copy_registers_block t0 oth p init8 s"
    by (simp add: copy_switch_def)
  with copy_registers_block_result[OF _ inv fresh(2) init(2) t0] HLL_DATA_FULL
  show ?thesis by simp
qed

lemma payload_without_arrays:
  assumes dj: "disjoint_payload t oth"
  shows "explicit_payload (without_arrays_of s t) oth = explicit_payload s oth"
    and "registers_payload (without_arrays_of s t) oth = registers_payload s oth"
  using dj
  by (cases s; auto simp: without_arrays_of_def disjoint_payload_def explicit_payload_def
        registers_payload_def split: option.splits)+

lemma sketch_inv_objects_update: "sketch_inv (s\<lparr>objects := f\<rparr>) t = sketch_inv s t"
  by (simp add: sketch_inv_def owns_u64_def owns_u8_def split: HllDataType.splits option.splits)

lemma copy_construct_result:
  assumes other: "objects s other = Some oth" and inv: "sketch_inv s oth"
    and init: "length init64 = HLL_EXPLICIT_INT64_NUM_DOUBLE" "length init8 = HLL_REGISTERS_COUNT"
    and new: "dst \<noteq> other"
    and fresh_p: "u64_arrays s p = None" "u8_arrays s p = None"
  shows "\<exists>s1 t1.
       copy_construct dst other p init64 init8 s = Some s1
     \<and> objects s1 dst = Some t1 \<and> hll_type t1 = hll_type oth
     \<and> explicit_payload s1 t1 = explicit_payload s oth
     \<and> registers_payload s1 t1 = registers_payload s oth
     \<and> sketch_inv s1 t1 \<and> disjoint_payload t1 oth
     \<and> objects s1 other = Some oth
     \<and> explicit_payload s1 oth = explicit_payload s oth
     \<and> registers_payload s1 oth = registers_payload s oth"
proof -
  let ?t0 = "HyperLogLog_init\<lparr>hll_type := hll_type oth\<rparr>"
  obtain t1 s' where c: "copy_switch ?t0 oth p init64 init8 s = Some (t1, s')"
    "objects s' = objects s" "hll_type t1 = hll_type oth"
    "explicit_payload s' t1 = explicit_payload s oth"
    "registers_payload s' t1 = registers_payload s oth"
    "sketch_inv s' t1" "disjoint_payload t1 oth"
    "explicit_payload s' oth = explicit_payload s oth"
    "registers_payload s' oth = registers_payload s oth"
    using copy_switch_result[OF inv fresh_p init, of ?t0]
    by (auto simp: HyperLogLog_init_def)
  let ?s1 = "s'\<lparr>objects := (objects s')(dst \<mapsto> t1)\<rparr>"
  have c1: "copy_construct dst other p init64 init8 s = Some ?s1"
    using other c(1) by (simp add: copy_construct_def)
  have c2: "objects ?s1 dst = Some t1" by simp
  have c3: "objects ?s1 other = Some oth" using new other c(2) by simp
  have c4: "explicit_payload ?s1 t1 = explicit_payload s oth"
    "registers_payload ?s1 t1 = registers_payload s oth"
    "explicit_payload ?s1 oth = explicit_payload s oth"
    "registers_payload ?s1 oth = registers_payload s oth"
    using c(4,5,8,9) by (simp_all only: payload_objects_update)
  have c5: "sketch_inv ?s1 t1" using c(6) by (simp only: sketch_inv_objects_update)
  show ?thesis
    apply (rule exI[of _ ?s1], rule exI[of _ t1])
    apply (intro conjI)
    apply (rule c1 c2 c(3) c4 c5 c(7) c3)+
    done
qed

lemma copy_assign_result:
  assumes other: "objects s other = Some oth" and inv: "sketch_inv s oth"
    and init: "length init64 = HLL_EXPLICIT_INT64_NUM_DOUBLE" "length init8 = HLL_REGISTERS_COUNT"
    and neq: "this \<noteq> other"
    and dest: "objects s this = Some t" "pointers_valid s t" "disjoint_payload t oth"
    and fresh_q: "u64_arrays (without_arrays_of s t) q = None"
      "u8_arrays (without_arrays_of s t) q = None"
  shows "\<exists>s2 t2.
       copy_assign this other q init64 init8 s = Some s2
     \<and> objects s2 this = Some t2 \<and> hll_type t2 = hll_type oth
     \<and> explicit_payload s2 t2 = explicit_payload s oth
     \<and> registers_payload s2 t2 = registers_payload s oth
     \<and> sketch_inv s2 t2 \<and> disjoint_payload t2 oth
     \<and> objects s2 other = Some oth
     \<and> explicit_payload s2 oth = explicit_payload s oth
     \<and> registers_payload s2 oth = registers_payload s oth"
proof -
  let ?r = "without_arrays_of s t"
  let ?t' = "t\<lparr>registers := None, explicit_data := None, explicit_data_num := 0,
        hll_type := hll_type oth\<rparr>"
  have inv': "sketch_inv ?r oth"
    using inv payload_after_release(3)[OF dest(3), of s] by simp
  obtain t2 s'' where a: "copy_switch ?t' oth q init64 init8 ?r = Some (t2, s'')"
    "objects s'' = objects ?r" "hll_type t2 = hll_type oth"
    "explicit_payload s'' t2 = explicit_payload ?r oth"
    "registers_payload s'' t2 = registers_payload ?r oth"
    "sketch_inv s'' t2" "disjoint_payload t2 oth"
    "explicit_payload s'' oth = explicit_payload ?r oth"
    "registers_payload s'' oth = registers_payload ?r oth"
    using copy_switch_result[OF inv' fresh_q init, of ?t']
    by auto
  let ?s2 = "s''\<lparr>objects := (objects s'')(this \<mapsto> t2)\<rparr>"
  have a1: "copy_assign this other q init64 init8 s = Some ?s2"
    using other dest(1) neq a(1) release_for_assign_result[OF dest(2)]
    by (simp add: copy_assign_def)
  have a2: "objects ?s2 this = Some t2" by simp
  have a3: "objects ?s2 other = Some oth"
    using neq other a(2) by (simp add: objects_without_arrays)
  have a4: "explicit_payload ?s2 t2 = explicit_payload s oth"
    "registers_payload ?s2 t2 = registers_payload s oth"
    "explicit_payload ?s2 oth = explicit_payload s oth"
    "registers_payload ?s2 oth = registers_payload s oth"
    using a(4,5,8,9) payload_without_arrays[OF dest(3), of s]
    by (simp_all only: payload_objects_update)
  have a5: "sketch_inv ?s2 t2" using a(6) by (simp only: sketch_inv_objects_update)
  show ?thesis
    apply (rule exI[of _ ?s2], rule exI[of _ t2])
    apply (intro conjI)
    apply (rule a1 a2 a(3) a4 a5 a(7) a3)+
    done
qed

text \<open>
  C8. Let \<open>oth\<close> be a sketch of any kind, in the state its kind prescribes. Copy-constructing
  a new sketch from it, at any address \<open>dst\<close> other than its own and whatever else the store
  holds, returns; so does copy-assigning it to another sketch at \<open>this\<close> that shares no
  array with it. The result has the source's kind and a payload with equal contents in an
  array of its own (the block \<open>p\<close>, respectively \<open>q\<close>, the allocator hands out, which for
  assignment may be a block the destination has just freed), and the source object and its
  payload are as before. Copy-assigning the source to itself returns with the store as it
  was, so there too kind and payload are the source's and the source is as before.
\<close>

theorem copy_duplicates_payload:
  assumes other: "objects s other = Some oth" and inv: "sketch_inv s oth"
    and init: "length init64 = HLL_EXPLICIT_INT64_NUM_DOUBLE" "length init8 = HLL_REGISTERS_COUNT"
  shows "(dst \<noteq> other \<and> u64_arrays s p = None \<and> u8_arrays s p = None \<longrightarrow>
     (\<exists>s1 t1.
       copy_construct dst other p init64 init8 s = Some s1
     \<and> objects s1 dst = Some t1 \<and> hll_type t1 = hll_type oth
     \<and> explicit_payload s1 t1 = explicit_payload s oth
     \<and> registers_payload s1 t1 = registers_payload s oth
     \<and> sketch_inv s1 t1 \<and> disjoint_payload t1 oth
     \<and> objects s1 other = Some oth
     \<and> explicit_payload s1 oth = explicit_payload s oth
     \<and> registers_payload s1 oth = registers_payload s oth))
   \<and> (this \<noteq> other \<and> objects s this = Some t \<and> pointers_valid s t
        \<and> disjoint_payload t oth
        \<and> u64_arrays (without_arrays_of s t) q = None
        \<and> u8_arrays (without_arrays_of s t) q = None \<longrightarrow>
     (\<exists>s2 t2.
       copy_assign this other q init64 init8 s = Some s2
     \<and> objects s2 this = Some t2 \<and> hll_type t2 = hll_type oth
     \<and> explicit_payload s2 t2 = explicit_payload s oth
     \<and> registers_payload s2 t2 = registers_payload s oth
     \<and> sketch_inv s2 t2 \<and> disjoint_payload t2 oth
     \<and> objects s2 other = Some oth
     \<and> explicit_payload s2 oth = explicit_payload s oth
     \<and> registers_payload s2 oth = registers_payload s oth))
   \<and> copy_assign other other q init64 init8 s = Some s"
proof (intro conjI impI)
  assume "dst \<noteq> other \<and> u64_arrays s p = None \<and> u8_arrays s p = None"
  then have "dst \<noteq> other" "u64_arrays s p = None" "u8_arrays s p = None" by simp_all
  with other inv init show "\<exists>s1 t1.
       copy_construct dst other p init64 init8 s = Some s1
     \<and> objects s1 dst = Some t1 \<and> hll_type t1 = hll_type oth
     \<and> explicit_payload s1 t1 = explicit_payload s oth
     \<and> registers_payload s1 t1 = registers_payload s oth
     \<and> sketch_inv s1 t1 \<and> disjoint_payload t1 oth
     \<and> objects s1 other = Some oth
     \<and> explicit_payload s1 oth = explicit_payload s oth
     \<and> registers_payload s1 oth = registers_payload s oth"
    by (rule copy_construct_result)
next
  assume "this \<noteq> other \<and> objects s this = Some t \<and> pointers_valid s t
        \<and> disjoint_payload t oth
        \<and> u64_arrays (without_arrays_of s t) q = None
        \<and> u8_arrays (without_arrays_of s t) q = None"
  then have "this \<noteq> other" "objects s this = Some t" "pointers_valid s t"
    "disjoint_payload t oth" "u64_arrays (without_arrays_of s t) q = None"
    "u8_arrays (without_arrays_of s t) q = None" by simp_all
  with other inv init show "\<exists>s2 t2.
       copy_assign this other q init64 init8 s = Some s2
     \<and> objects s2 this = Some t2 \<and> hll_type t2 = hll_type oth
     \<and> explicit_payload s2 t2 = explicit_payload s oth
     \<and> registers_payload s2 t2 = registers_payload s oth
     \<and> sketch_inv s2 t2 \<and> disjoint_payload t2 oth
     \<and> objects s2 other = Some oth
     \<and> explicit_payload s2 oth = explicit_payload s oth
     \<and> registers_payload s2 oth = registers_payload s oth"
    by (rule copy_assign_result)
next
  show "copy_assign other other q init64 init8 s = Some s"
    by (simp add: copy_assign_def)
qed

theorem copy_duplicates_payload_witness:
  "objects example_store 2 = Some example_full \<and> sketch_inv example_store example_full
   \<and> length (replicate 320 (0 :: 64 word)) = HLL_EXPLICIT_INT64_NUM_DOUBLE
   \<and> length (replicate 16384 (7 :: 8 word)) = HLL_REGISTERS_COUNT
   \<and> (3 :: addr) \<noteq> 2
   \<and> u64_arrays example_store 30 = None \<and> u8_arrays example_store 30 = None
   \<and> (\<exists>s1 t1.
       copy_construct 3 2 30 (replicate 320 0) (replicate 16384 7) example_store = Some s1
     \<and> objects s1 3 = Some t1 \<and> hll_type t1 = hll_type example_full
     \<and> explicit_payload s1 t1 = explicit_payload example_store example_full
     \<and> registers_payload s1 t1 = registers_payload example_store example_full
     \<and> sketch_inv s1 t1 \<and> disjoint_payload t1 example_full
     \<and> objects s1 2 = Some example_full
     \<and> explicit_payload s1 example_full = explicit_payload example_store example_full
     \<and> registers_payload s1 example_full = registers_payload example_store example_full)
   \<and> (1 :: addr) \<noteq> 2
   \<and> objects example_store 1 = Some example_explicit
   \<and> pointers_valid example_store example_explicit
   \<and> disjoint_payload example_explicit example_full
   \<and> u64_arrays (without_arrays_of example_store example_explicit) 10 = None
   \<and> u8_arrays (without_arrays_of example_store example_explicit) 10 = None
   \<and> (\<exists>s2 t2.
       copy_assign 1 2 10 (replicate 320 0) (replicate 16384 7) example_store = Some s2
     \<and> objects s2 1 = Some t2 \<and> hll_type t2 = hll_type example_full
     \<and> explicit_payload s2 t2 = explicit_payload example_store example_full
     \<and> registers_payload s2 t2 = registers_payload example_store example_full
     \<and> sketch_inv s2 t2 \<and> disjoint_payload t2 example_full
     \<and> objects s2 2 = Some example_full
     \<and> explicit_payload s2 example_full = explicit_payload example_store example_full
     \<and> registers_payload s2 example_full = registers_payload example_store example_full)
   \<and> objects lone_store 1 = Some lone_explicit \<and> sketch_inv lone_store lone_explicit
   \<and> (3 :: addr) \<noteq> 1
   \<and> u64_arrays lone_store 30 = None \<and> u8_arrays lone_store 30 = None
   \<and> (\<exists>s1 t1.
       copy_construct 3 1 30 (replicate 320 0) (replicate 16384 7) lone_store = Some s1
     \<and> objects s1 3 = Some t1 \<and> hll_type t1 = hll_type lone_explicit
     \<and> explicit_payload s1 t1 = explicit_payload lone_store lone_explicit
     \<and> registers_payload s1 t1 = registers_payload lone_store lone_explicit
     \<and> sketch_inv s1 t1 \<and> disjoint_payload t1 lone_explicit
     \<and> objects s1 1 = Some lone_explicit
     \<and> explicit_payload s1 lone_explicit = explicit_payload lone_store lone_explicit
     \<and> registers_payload s1 lone_explicit = registers_payload lone_store lone_explicit)"
proof -
  have f: "u64_arrays example_store 30 = None" "u8_arrays example_store 30 = None"
    by (simp_all add: example_store_def)
  have l: "length (replicate 320 (0 :: 64 word)) = HLL_EXPLICIT_INT64_NUM_DOUBLE"
    "length (replicate 16384 (7 :: 8 word)) = HLL_REGISTERS_COUNT"
    by (simp_all add: HLL_EXPLICIT_INT64_NUM_DOUBLE_def HLL_EXPLICIT_INT64_NUM_def
        HLL_REGISTERS_COUNT_def)
  have d: "(3 :: addr) \<noteq> 2" "(1 :: addr) \<noteq> 2" "(3 :: addr) \<noteq> 1" by simp_all
  have g: "u64_arrays (without_arrays_of example_store example_explicit) 10 = None"
    "u8_arrays (without_arrays_of example_store example_explicit) 10 = None"
    by (simp_all add: without_arrays_of_def example_store_def example_explicit_def)
  note r = copy_duplicates_payload [OF example_facts(2) example_facts(4) l,
      of 3 30 1 example_explicit 10]
  have hc: "(3 :: addr) \<noteq> 2 \<and> u64_arrays example_store 30 = None
      \<and> u8_arrays example_store 30 = None"
    by (intro conjI d(1) f)
  note c = r [THEN conjunct1, rule_format, OF hc]
  have ha: "(1 :: addr) \<noteq> 2 \<and> objects example_store 1 = Some example_explicit
      \<and> pointers_valid example_store example_explicit
      \<and> disjoint_payload example_explicit example_full
      \<and> u64_arrays (without_arrays_of example_store example_explicit) 10 = None
      \<and> u8_arrays (without_arrays_of example_store example_explicit) 10 = None"
    by (intro conjI d(2) example_facts(1,5,8) g)
  note a = r [THEN conjunct2, THEN conjunct1, rule_format, OF ha]
  have hl: "(3 :: addr) \<noteq> 1 \<and> u64_arrays lone_store 30 = None
      \<and> u8_arrays lone_store 30 = None"
    by (intro conjI d(3) lone_facts(3,4))
  note n = copy_duplicates_payload [OF lone_facts(1) lone_facts(2) l,
      of 3 30 1 example_explicit 10, THEN conjunct1, rule_format, OF hl]
  show ?thesis
    by (intro conjI example_facts(1,2,4,5,8) lone_facts f l d g c a n)
qed

lemma clear_result:
  assumes obj: "objects s this = Some t" and ok: "pointers_valid s t"
  shows "clear this s = Some
           \<lparr>objects = (objects s)(this \<mapsto> HyperLogLog_init),
            u64_arrays = (case explicit_data t of None \<Rightarrow> u64_arrays s
                          | Some a \<Rightarrow> (u64_arrays s)(a := None)),
            u8_arrays = (case registers t of None \<Rightarrow> u8_arrays s
                          | Some a \<Rightarrow> (u8_arrays s)(a := None))\<rparr>"
  using obj ok
  by (cases s; cases t)
     (auto simp: clear_def pointers_valid_def delete_u8_def delete_u64_def HyperLogLog_init_def
           split: option.splits)

lemma clear_of_empty:
  assumes "objects s this = Some HyperLogLog_init"
  shows "clear this s = Some s"
proof -
  have "(objects s)(this \<mapsto> HyperLogLog_init) = objects s"
    using assms by (simp add: map_upd_triv)
  then show ?thesis using assms
    by (cases s) (simp add: clear_def delete_u8_def delete_u64_def HyperLogLog_init_def)
qed

text \<open>
  C9. From every state of a sketch whose non-null pointers refer to allocated arrays,
  \<^verbatim>\<open>clear\<close> returns and leaves it empty: kind \<^verbatim>\<open>HLL_DATA_EMPTY\<close>, both pointers null, count
  0, both arrays freed. Clearing again changes nothing.
\<close>

theorem clear_returns_to_empty:
  assumes obj: "objects s this = Some t" and ok: "pointers_valid s t"
  shows "\<exists>s1. clear this s = Some s1
           \<and> objects s1 this = Some HyperLogLog_init
           \<and> hll_type HyperLogLog_init = HLL_DATA_EMPTY
           \<and> explicit_data HyperLogLog_init = None \<and> registers HyperLogLog_init = None
           \<and> explicit_data_num HyperLogLog_init = 0
           \<and> (\<forall>a. registers t = Some a \<longrightarrow> u8_arrays s1 a = None)
           \<and> (\<forall>a. explicit_data t = Some a \<longrightarrow> u64_arrays s1 a = None)
           \<and> clear this s1 = Some s1"
proof -
  let ?s1 = "\<lparr>objects = (objects s)(this \<mapsto> HyperLogLog_init),
            u64_arrays = (case explicit_data t of None \<Rightarrow> u64_arrays s
                          | Some a \<Rightarrow> (u64_arrays s)(a := None)),
            u8_arrays = (case registers t of None \<Rightarrow> u8_arrays s
                          | Some a \<Rightarrow> (u8_arrays s)(a := None))\<rparr>"
  have c: "clear this s = Some ?s1" using obj ok by (rule clear_result)
  have o: "objects ?s1 this = Some HyperLogLog_init" by simp
  have again: "clear this ?s1 = Some ?s1" using o by (rule clear_of_empty)
  have r8: "\<forall>a. registers t = Some a \<longrightarrow> u8_arrays ?s1 a = None" by simp
  have r64: "\<forall>a. explicit_data t = Some a \<longrightarrow> u64_arrays ?s1 a = None" by simp
  have f: "hll_type HyperLogLog_init = HLL_DATA_EMPTY" "explicit_data HyperLogLog_init = None"
    "registers HyperLogLog_init = None" "explicit_data_num HyperLogLog_init = 0"
    by (simp_all add: HyperLogLog_init_def)
  show ?thesis
    by (rule exI[of _ ?s1]) (intro conjI c o f r8 r64 again)
qed


theorem clear_returns_to_empty_witness:
  "objects example_store 1 = Some example_explicit
   \<and> pointers_valid example_store example_explicit
   \<and> (\<exists>s1. clear 1 example_store = Some s1
           \<and> objects s1 1 = Some HyperLogLog_init
           \<and> hll_type HyperLogLog_init = HLL_DATA_EMPTY
           \<and> explicit_data HyperLogLog_init = None \<and> registers HyperLogLog_init = None
           \<and> explicit_data_num HyperLogLog_init = 0
           \<and> (\<forall>a. registers example_explicit = Some a \<longrightarrow> u8_arrays s1 a = None)
           \<and> (\<forall>a. explicit_data example_explicit = Some a \<longrightarrow> u64_arrays s1 a = None)
           \<and> clear 1 s1 = Some s1)"
proof -
  note r = clear_returns_to_empty [OF example_facts(1) example_facts(5)]
  show ?thesis
    by (intro conjI example_facts(1,5) r)
qed
text \<open>
  C10. Assigning a sketch to itself, by copy or by move, leaves the whole store as it was:
  both operators test \<^verbatim>\<open>this != &other\<close> before they release anything.
\<close>

theorem self_assignment_is_noop:
  "copy_assign a a p init64 init8 s = Some s \<and> move_assign a a s = Some s"
  by (simp add: copy_assign_def move_assign_def)


end
